theory Spec2Isabelle
  imports Complex_Main
begin

section \<open>Data model of the presence monitor (script.js, sw.js)\<close>

text \<open>
  Timestamps are the integer millisecond readings of \<^verbatim>\<open>Date.now()\<close>. An activity label
  (\<^verbatim>\<open>gameName\<close>) is a string or \<^verbatim>\<open>null\<close>, modelled as \<open>string option\<close>.

  The derived fields \<^verbatim>\<open>date\<close> (local calendar day of a timestamp) and \<^verbatim>\<open>createdAt\<close>
  (a further clock reading) of the stored records are not modelled: nothing in the engine
  reads them back.
\<close>

record sample =
  online :: bool
  gameName :: "string option"

text \<open>\<^verbatim>\<open>state.lastKnownStatus\<close>: \<^verbatim>\<open>{ online, gameName, ts }\<close> or \<^verbatim>\<open>null\<close>.\<close>

record status = sample +
  ts :: int

text \<open>A record of the \<^verbatim>\<open>events\<close> store. \<open>heartbeat\<close> is \<open>False\<close> where the source
  leaves the property out.\<close>

record event = sample +
  evUsername :: string
  timestamp :: int
  heartbeat :: bool

text \<open>A record of the \<^verbatim>\<open>sessions\<close> store.\<close>

record session =
  ssUsername :: string
  startTs :: int
  endTs :: int
  durationSec :: int
  ssGameName :: "string option"

text \<open>
  The runtime \<^verbatim>\<open>state\<close> object of script.js together with what it persists: the two
  IndexedDB object stores (in insertion order, which is key order under \<^verbatim>\<open>autoIncrement\<close>)
  and the \<^verbatim>\<open>rb_use_sim\<close> entry of localStorage. \<open>realFetches\<close> is a ghost counter of
  the requests sent to the real presence endpoints.
\<close>

record world =
  username :: string
  useSimulator :: bool
  lastKnownStatus :: "status option"
  currentSessionStart :: "int option"
  events :: "event list"
  sessions :: "session list"
  rb_use_sim :: string
  realFetches :: nat

datatype error = StoreFailure | EmptyUsername

text \<open>A call either returns, leaving a world, or throws, leaving the world as it was
  at the throw.\<close>

type_synonym outcome = "(error \<times> world) + world"

definition worldOf :: "outcome \<Rightarrow> world" where
  "worldOf r = (case r of Inl (e, w) \<Rightarrow> w | Inr w \<Rightarrow> w)"

definition andThen :: "outcome \<Rightarrow> (world \<Rightarrow> outcome) \<Rightarrow> outcome" where
  "andThen r k = (case r of Inl x \<Rightarrow> Inl x | Inr w \<Rightarrow> k w)"

subsection \<open>JavaScript truthiness\<close>

text \<open>\<^verbatim>\<open>!!g\<close> for a string or null: the empty string is falsy.\<close>

definition truthyStr :: "string option \<Rightarrow> bool" where
  "truthyStr g = (case g of None \<Rightarrow> False | Some s \<Rightarrow> s \<noteq> [])"

text \<open>\<^verbatim>\<open>g || null\<close>.\<close>

definition orNull :: "string option \<Rightarrow> string option" where
  "orNull g = (if truthyStr g then g else None)"

text \<open>\<^verbatim>\<open>!!t\<close> for a number or null: zero is falsy.\<close>

definition truthyNum :: "int option \<Rightarrow> bool" where
  "truthyNum t = (case t of None \<Rightarrow> False | Some n \<Rightarrow> n \<noteq> 0)"

section \<open>Recording events and sessions (script.js)\<close>

text \<open>
  \<^verbatim>\<open>dbAdd(storeName, record)\<close>: the append either is accepted by the store or rejects.
  Which of the two happens is decided by the store, so every operation below takes the
  store's verdicts as arguments: \<open>evOk\<close> for the append to \<^verbatim>\<open>events\<close>, \<open>ssOk\<close> for the
  append to \<^verbatim>\<open>sessions\<close>. Reads (\<^verbatim>\<open>dbGetAll\<close>) are taken to succeed.
\<close>

definition dbAdd :: "bool \<Rightarrow> 'r \<Rightarrow> 'r list \<Rightarrow> 'r list option" where
  "dbAdd ok r store = (if ok then Some (store @ [r]) else None)"

text \<open>\<^verbatim>\<open>Math.max(0, Math.floor((end - start) / 1000))\<close>\<close>

definition closedDuration :: "int \<Rightarrow> int \<Rightarrow> int" where
  "closedDuration start end = max 0 ((end - start) div 1000)"

text \<open>script.js, lines 215-262.\<close>

definition addStatusEvent ::
  "bool \<Rightarrow> bool \<Rightarrow> string \<Rightarrow> bool \<Rightarrow> string option \<Rightarrow> int \<Rightarrow> world \<Rightarrow> outcome" where
  "addStatusEvent evOk ssOk uname onl game t w =
    (let ev = \<lparr>online = onl, gameName = orNull game,
               evUsername = uname, timestamp = t, heartbeat = False\<rparr>;
         known = \<lparr>online = onl, gameName = game, ts = t\<rparr>
     in case dbAdd evOk ev (events w) of
          None \<Rightarrow> Inl (StoreFailure, w)
        | Some evs \<Rightarrow>
           (let w1 = w\<lparr>events := evs\<rparr> in
            if onl then
              (if \<not> truthyNum (currentSessionStart w1)
               then Inr (w1\<lparr>currentSessionStart := Some t, lastKnownStatus := Some known\<rparr>)
               else Inr (w1\<lparr>lastKnownStatus := Some known\<rparr>))
            else
              (case currentSessionStart w1 of
                 None \<Rightarrow> Inr (w1\<lparr>lastKnownStatus := Some known\<rparr>)
               | Some start \<Rightarrow>
                  if start = 0 then Inr (w1\<lparr>lastKnownStatus := Some known\<rparr>)
                  else
                    (let ss = \<lparr>ssUsername = uname, startTs = start, endTs = t,
                               durationSec = closedDuration start t,
                               ssGameName =
                                 (case lastKnownStatus w1 of
                                    None \<Rightarrow> orNull game
                                  | Some lk \<Rightarrow>
                                      if truthyStr (gameName lk) then gameName lk
                                      else orNull game)\<rparr>
                     in case dbAdd ssOk ss (sessions w1) of
                          None \<Rightarrow> Inl (StoreFailure, w1)
                        | Some sss \<Rightarrow>
                            Inr (w1\<lparr>sessions := sss, currentSessionStart := None,
                                    lastKnownStatus := Some known\<rparr>)))))"

text \<open>
  The state effect of \<^verbatim>\<open>updateUILive(online, game)\<close> (script.js, lines 452-468): when the
  sample is online and no session start is held, the start is taken from the last known
  status, or from the clock (\<open>now\<close>) when there is none. The rest of the function only
  draws.
\<close>

definition updateUILive :: "int \<Rightarrow> bool \<Rightarrow> world \<Rightarrow> world" where
  "updateUILive now onl w =
    (if onl \<and> \<not> truthyNum (currentSessionStart w)
     then w\<lparr>currentSessionStart :=
              Some (case lastKnownStatus w of Some lk \<Rightarrow> ts lk | None \<Rightarrow> now)\<rparr>
     else w)"

text \<open>
  Lines 392-395 of \<^verbatim>\<open>onStatusResult\<close>: the unconditional update of the last known status,
  then \<^verbatim>\<open>updateUILive\<close>. The status has just been set there, so the clock is not read.
\<close>

definition commitStatus :: "bool \<Rightarrow> string option \<Rightarrow> int \<Rightarrow> world \<Rightarrow> outcome" where
  "commitStatus onl game t w =
    Inr (updateUILive t onl
          (w\<lparr>lastKnownStatus := Some \<lparr>online = onl, gameName = game, ts = t\<rparr>\<rparr>))"

text \<open>The test of line 374: the online flag differs, or the sample is online and the
  activity differs.\<close>

definition stateChanged :: "status \<Rightarrow> bool \<Rightarrow> string option \<Rightarrow> bool" where
  "stateChanged lk onl game = (online lk \<noteq> onl \<or> (onl \<and> gameName lk \<noteq> game))"

definition heartbeatMs :: int where
  "heartbeatMs = 30 * 60 * 1000"

text \<open>script.js, lines 365-396: the ingest of one sample \<open>res\<close> taken at \<open>t\<close>.\<close>

definition onStatusResult :: "bool \<Rightarrow> bool \<Rightarrow> sample \<Rightarrow> int \<Rightarrow> world \<Rightarrow> outcome" where
  "onStatusResult evOk ssOk res t w =
    (let onl = online res; game = orNull (gameName res) in
     case lastKnownStatus w of
       None \<Rightarrow>
         andThen (addStatusEvent evOk ssOk (username w) onl game t w) (commitStatus onl game t)
     | Some lk \<Rightarrow>
         if stateChanged lk onl game then
           andThen (addStatusEvent evOk ssOk (username w) onl game t w) (commitStatus onl game t)
         else if t - ts lk > heartbeatMs then
           (case dbAdd evOk \<lparr>online = onl, gameName = game, evUsername = username w,
                              timestamp = t, heartbeat = True\<rparr> (events w) of
              None \<Rightarrow> Inl (StoreFailure, w)
            | Some evs \<Rightarrow>
                commitStatus onl game t
                  (w\<lparr>events := evs, lastKnownStatus := Some (lk\<lparr>ts := t\<rparr>)\<rparr>))
         else commitStatus onl game t w)"

section \<open>Gap repair (script.js)\<close>

text \<open>
  \<^verbatim>\<open>all.filter(e => e.username === state.username).sort((a,b) => a.timestamp - b.timestamp)\<close>:
  the identity's events in ascending timestamp order; the sort is stable, as \<open>sort_key\<close> is.
\<close>

definition forUser :: "world \<Rightarrow> event list" where
  "forUser w = sort_key timestamp (filter (\<lambda>e. evUsername e = username w) (events w))"

text \<open>\<^verbatim>\<open>forUser.length ? forUser[forUser.length - 1] : null\<close>\<close>

definition lastEvent :: "world \<Rightarrow> event option" where
  "lastEvent w = (if forUser w = [] then None else Some (last (forUser w)))"

text \<open>script.js, lines 270-284.\<close>

definition repairStateFromDB :: "world \<Rightarrow> world" where
  "repairStateFromDB w =
    (case lastEvent w of
       None \<Rightarrow> w
     | Some lastEv \<Rightarrow>
         if online lastEv then
           w\<lparr>currentSessionStart := Some (timestamp lastEv),
             lastKnownStatus :=
               Some \<lparr>online = True, gameName = gameName lastEv, ts = timestamp lastEv\<rparr>\<rparr>
         else
           w\<lparr>currentSessionStart := None,
             lastKnownStatus := Some \<lparr>online = False, gameName = None, ts = timestamp lastEv\<rparr>\<rparr>)"

text \<open>
  script.js, lines 295-338, in the run where both reads of the Event table succeed (the
  \<^verbatim>\<open>dbGetAll\<close> of line 297 and the one of \<^verbatim>\<open>repairStateFromDB\<close>, line 272, called at line
  333). The body runs inside \<^verbatim>\<open>try\<close>/\<^verbatim>\<open>catch\<close>: a rejected append ends the run where it is,
  and the function returns normally. The run with the reads' own verdicts is
  \<open>onReopenFillGapReads\<close> below.
\<close>

definition onReopenFillGap :: "bool \<Rightarrow> bool \<Rightarrow> sample \<Rightarrow> int \<Rightarrow> world \<Rightarrow> world" where
  "onReopenFillGap evOk ssOk currentStatus nowTs w =
    (let ev = \<lparr>online = online currentStatus, gameName = orNull (gameName currentStatus),
               evUsername = username w, timestamp = nowTs, heartbeat = False\<rparr>
     in case lastEvent w of
       None \<Rightarrow>
         worldOf (addStatusEvent evOk ssOk (username w) (online currentStatus)
                    (gameName currentStatus) nowTs w)
     | Some lastEv \<Rightarrow>
         if online lastEv \<and> \<not> online currentStatus then
           (let ss = \<lparr>ssUsername = username w, startTs = timestamp lastEv, endTs = nowTs,
                      durationSec = closedDuration (timestamp lastEv) nowTs,
                      ssGameName =
                        (if truthyStr (gameName lastEv) then gameName lastEv
                         else orNull (gameName currentStatus))\<rparr>
            in case dbAdd ssOk ss (sessions w) of
                 None \<Rightarrow> w
               | Some sss \<Rightarrow>
                   (let w1 = w\<lparr>sessions := sss\<rparr> in
                    case dbAdd evOk (ev\<lparr>online := False\<rparr>) (events w1) of
                      None \<Rightarrow> w1
                    | Some evs \<Rightarrow> repairStateFromDB (w1\<lparr>events := evs\<rparr>)))
         else
           (case dbAdd evOk ev (events w) of
              None \<Rightarrow> w
            | Some evs \<Rightarrow> repairStateFromDB (w\<lparr>events := evs\<rparr>)))"

text \<open>
  script.js, lines 295-338, with the store's verdicts on the two reads as well: \<open>rdOk\<close> for
  the \<^verbatim>\<open>dbGetAll\<close> of line 297, \<open>repairOk\<close> for the \<^verbatim>\<open>dbGetAll\<close> of line 272 inside the
  \<^verbatim>\<open>repairStateFromDB\<close> awaited at line 333. A rejected read throws like a rejected append
  and is swallowed by the \<^verbatim>\<open>catch\<close> of line 334: when the first read is rejected nothing has
  been done; when the concluding one is rejected the appends stay and the runtime state is
  not repaired. With no earlier Event the function returns at line 302, before line 333.
\<close>

definition onReopenFillGapReads ::
  "bool \<Rightarrow> bool \<Rightarrow> bool \<Rightarrow> bool \<Rightarrow> sample \<Rightarrow> int \<Rightarrow> world \<Rightarrow> world" where
  "onReopenFillGapReads rdOk repairOk evOk ssOk currentStatus nowTs w =
    (if \<not> rdOk then w
     else
      (let ev = \<lparr>online = online currentStatus, gameName = orNull (gameName currentStatus),
                 evUsername = username w, timestamp = nowTs, heartbeat = False\<rparr>;
           repair = (\<lambda>v. if repairOk then repairStateFromDB v else v)
       in case lastEvent w of
         None \<Rightarrow>
           worldOf (addStatusEvent evOk ssOk (username w) (online currentStatus)
                      (gameName currentStatus) nowTs w)
       | Some lastEv \<Rightarrow>
           if online lastEv \<and> \<not> online currentStatus then
             (let ss = \<lparr>ssUsername = username w, startTs = timestamp lastEv, endTs = nowTs,
                        durationSec = closedDuration (timestamp lastEv) nowTs,
                        ssGameName =
                          (if truthyStr (gameName lastEv) then gameName lastEv
                           else orNull (gameName currentStatus))\<rparr>
              in case dbAdd ssOk ss (sessions w) of
                   None \<Rightarrow> w
                 | Some sss \<Rightarrow>
                     (let w1 = w\<lparr>sessions := sss\<rparr> in
                      case dbAdd evOk (ev\<lparr>online := False\<rparr>) (events w1) of
                        None \<Rightarrow> w1
                      | Some evs \<Rightarrow> repair (w1\<lparr>events := evs\<rparr>)))
           else
             (case dbAdd evOk ev (events w) of
                None \<Rightarrow> w
              | Some evs \<Rightarrow> repair (w\<lparr>events := evs\<rparr>))))"

section \<open>The service worker's save path (sw.js)\<close>

text \<open>sw.js, lines 102-126. A rejected append is swallowed by the \<^verbatim>\<open>catch\<close>.\<close>

definition workerSaveEvent :: "bool \<Rightarrow> bool \<Rightarrow> string \<Rightarrow> sample \<Rightarrow> int \<Rightarrow> world \<Rightarrow> world" where
  "workerSaveEvent evOk ssOk uname res t w =
    (let ev = \<lparr>online = online res, gameName = orNull (gameName res),
               evUsername = uname, timestamp = t, heartbeat = False\<rparr>
     in case dbAdd evOk ev (events w) of
          None \<Rightarrow> w
        | Some evs \<Rightarrow>
           (let w1 = w\<lparr>events := evs\<rparr> in
            if \<not> online res then
              (let approxStart = t - 5 * 60 * 1000;
                   ss = \<lparr>ssUsername = uname, startTs = approxStart, endTs = t,
                          durationSec = (t - approxStart) div 1000,
                          ssGameName = orNull (gameName res)\<rparr>
               in case dbAdd ssOk ss (sessions w1) of
                    None \<Rightarrow> w1
                  | Some sss \<Rightarrow> w1\<lparr>sessions := sss\<rparr>)
            else w1))"

section \<open>Sample sources and the poll (script.js)\<close>

text \<open>
  \<^verbatim>\<open>x % y\<close> on numbers, for the operands it meets here: \<open>x\<close> non-negative and \<open>y\<close> positive,
  where the truncated remainder is the floored one.
\<close>

definition jsRem :: "real \<Rightarrow> real \<Rightarrow> real" where
  "jsRem x y = x - y * of_int \<lfloor>x / y\<rfloor>"

definition games :: "string list" where
  "games = [''Jogo A'', ''Jogo B'', ''City Adventure'', ''Tycoon X'', ''Obby Fun'']"

text \<open>\<^verbatim>\<open>[...username].reduce((s,c) => s + c.charCodeAt(0), 0)\<close>\<close>

definition charSum :: "string \<Rightarrow> int" where
  "charSum uname = foldl (\<lambda>s c. s + of_char c) 0 uname"

text \<open>
  script.js, lines 191-204. The clock reading \<^verbatim>\<open>Date.now()\<close> is the argument \<open>now\<close>.
  \<^verbatim>\<open>Math.sin\<close> is the argument \<open>msin\<close>, given on the integer seeds it is applied to; the
  arithmetic on its result is written over the reals.
\<close>

definition simulateStatus :: "(int \<Rightarrow> real) \<Rightarrow> string \<Rightarrow> int \<Rightarrow> sample" where
  "simulateStatus msin uname now =
    (let minute = now div 60000;
         seed = charSum uname + minute;
         rnd = jsRem \<bar>msin seed\<bar> 1;
         onl = (rnd > 0.4);
         idx = nat \<lfloor>jsRem (rnd * 1000) (of_nat (length games))\<rfloor>
     in \<lparr>online = onl,
         gameName = (if onl then (if idx < length games then Some (games ! idx) else None)
                     else None)\<rparr>)"

text \<open>
  What the real presence endpoints answer, after decoding (script.js, lines 148-187):
  a presence, or a failure with its reason. Every failure that \<^verbatim>\<open>fetchRobloxStatus\<close>
  reports carries \<^verbatim>\<open>fallback:true\<close>.
\<close>

datatype reply = Presence sample | Unavailable string

text \<open>The result object \<^verbatim>\<open>res\<close>: \<^verbatim>\<open>{ ok:true, online, gameName }\<close> or
  \<^verbatim>\<open>{ ok:false, reason, fallback }\<close>.\<close>

datatype fetched = Fetched sample | Failed string bool

text \<open>script.js, lines 141-188.\<close>

definition fetchRobloxStatus ::
  "(int \<Rightarrow> real) \<Rightarrow> reply \<Rightarrow> int \<Rightarrow> string \<Rightarrow> world \<Rightarrow> error + (fetched \<times> world)" where
  "fetchRobloxStatus msin rep simNow uname w =
    (if uname = [] then Inl EmptyUsername
     else if useSimulator w then Inr (Fetched (simulateStatus msin uname simNow), w)
     else Inr (case rep of Presence s \<Rightarrow> Fetched s | Unavailable reason \<Rightarrow> Failed reason True,
               w\<lparr>realFetches := Suc (realFetches w)\<rparr>))"

text \<open>
  script.js, lines 344-363. \<open>now\<close> is the reading taken for \<^verbatim>\<open>ts\<close>, \<open>simNow\<close> the later
  one the simulator takes when it is called.
\<close>

definition checkAndRecord ::
  "(int \<Rightarrow> real) \<Rightarrow> reply \<Rightarrow> bool \<Rightarrow> bool \<Rightarrow> int \<Rightarrow> int \<Rightarrow> world \<Rightarrow> outcome" where
  "checkAndRecord msin rep evOk ssOk now simNow w =
    (if username w = [] then Inr w
     else case fetchRobloxStatus msin rep simNow (username w) w of
       Inl e \<Rightarrow> Inl (e, w)
     | Inr (res, w1) \<Rightarrow>
        (case res of
           Failed reason fallback \<Rightarrow>
             if fallback then
               (let w2 = w1\<lparr>useSimulator := True, rb_use_sim := ''true''\<rparr>
                in onStatusResult evOk ssOk (simulateStatus msin (username w2) simNow) now w2)
             else Inr w1
         | Fetched s \<Rightarrow> onStatusResult evOk ssOk s now w1))"

section \<open>Runs of the engine\<close>

text \<open>
  The entry points that touch the stores, each with the store's verdicts on its appends:
  a poll's ingest (whose caller catches and logs what it throws), a gap repair on
  resumption (\<open>Reopen\<close> when both of its reads succeed, \<open>ReopenReads\<close> with the verdicts of
  the two reads in front of those of the appends), the bare state repair of
  \<^verbatim>\<open>setUsername\<close> (line 684; when its read is rejected \<^verbatim>\<open>setUsername\<close> throws before it
  has touched the state or the stores, which is no step at all), and a save by the service
  worker.

  A run is a sequence of whole calls: each entry point runs to completion before the next
  one starts. The entry points are \<^verbatim>\<open>async\<close> functions, and two calls of the program can
  also interleave at their \<^verbatim>\<open>await\<close>s (between the appends of lines 225 and 253, say);
  such interleavings are not runs in this sense, and nothing proved about \<open>run\<close> speaks of
  them.
\<close>

datatype op =
    Ingest bool bool sample int
  | Reopen bool bool sample int
  | ReopenReads bool bool bool bool sample int
  | Repair
  | WorkerSave bool bool string sample int

fun step :: "op \<Rightarrow> world \<Rightarrow> world" where
  "step (Ingest evOk ssOk res t) w = worldOf (onStatusResult evOk ssOk res t w)"
| "step (Reopen evOk ssOk res t) w = onReopenFillGap evOk ssOk res t w"
| "step (ReopenReads rdOk repairOk evOk ssOk res t) w =
     onReopenFillGapReads rdOk repairOk evOk ssOk res t w"
| "step Repair w = repairStateFromDB w"
| "step (WorkerSave evOk ssOk uname res t) w = workerSaveEvent evOk ssOk uname res t w"

fun run :: "op list \<Rightarrow> world \<Rightarrow> world" where
  "run [] w = w"
| "run (x # xs) w = run xs (step x w)"

text \<open>The state at page load for a stored user name, over empty stores.\<close>

definition world0 :: "string \<Rightarrow> world" where
  "world0 uname =
    \<lparr>username = uname, useSimulator = False, lastKnownStatus = None,
     currentSessionStart = None, events = [], sessions = [],
     rb_use_sim = ''false'', realFetches = 0\<rparr>"

subsection \<open>Scenario data\<close>

definition jogoA :: sample where
  "jogoA = \<lparr>online = True, gameName = Some ''Jogo A''\<rparr>"

definition offline :: sample where
  "offline = \<lparr>online = False, gameName = None\<rparr>"

subsection \<open>State predicates\<close>

text \<open>While the last known status is online, a session start is held.\<close>

definition sessionOpenWhenOnline :: "world \<Rightarrow> bool" where
  "sessionOpenWhenOnline w =
    (case lastKnownStatus w of
       None \<Rightarrow> True
     | Some lk \<Rightarrow> online lk \<longrightarrow> truthyNum (currentSessionStart w))"

text \<open>The duration a Session carries, against its interval.\<close>

definition durationOk :: "session \<Rightarrow> bool" where
  "durationOk s =
    (durationSec s = max 0 ((endTs s - startTs s) div 1000) \<and> 0 \<le> durationSec s \<and>
     (startTs s \<le> endTs s \<longrightarrow> durationSec s = (endTs s - startTs s) div 1000))"

text \<open>Two Sessions of one identity whose intervals \<open>[startTs, endTs)\<close> share an instant.\<close>

definition overlap :: "session \<Rightarrow> session \<Rightarrow> bool" where
  "overlap a b =
    (ssUsername a = ssUsername b \<and> max (startTs a) (startTs b) < min (endTs a) (endTs b))"

text \<open>No two records of the Session table overlap (\<open>sorted_wrt\<close> ranges over every pair of
  positions \<open>i < j\<close>).\<close>

definition noOverlap :: "session list \<Rightarrow> bool" where
  "noOverlap ss = sorted_wrt (\<lambda>a b. \<not> overlap a b) ss"

text \<open>
  A run of the page's own entry points, one whole call after the other, in which the clock
  readings never decrease (\<open>T\<close> is the latest reading so far) and no gap repair that gets
  as far as an accepted Session append has its Event append or its concluding read
  rejected afterwards. The verdicts of an entry are those the store would give; the one
  on an append or a read that the call does not get to changes nothing in \<open>step\<close>.
\<close>

fun orderly :: "int \<Rightarrow> op list \<Rightarrow> bool" where
  "orderly T [] = True"
| "orderly T (Ingest evOk ssOk res t # ops) = (T \<le> t \<and> orderly t ops)"
| "orderly T (Reopen evOk ssOk res t # ops) = (T \<le> t \<and> (ssOk \<longrightarrow> evOk) \<and> orderly t ops)"
| "orderly T (ReopenReads rdOk repairOk evOk ssOk res t # ops) =
     (T \<le> t \<and> (rdOk \<and> ssOk \<longrightarrow> evOk \<and> repairOk) \<and> orderly t ops)"
| "orderly T (Repair # ops) = orderly T ops"
| "orderly T (WorkerSave evOk ssOk uname res t # ops) = False"

subsection \<open>Polls\<close>

text \<open>
  One tick of the poll timer: what the real endpoints would answer, the store's verdicts
  and the two clock readings. The timer's callback catches and logs what
  \<^verbatim>\<open>checkAndRecord\<close> throws.
\<close>

type_synonym poll = "reply \<times> bool \<times> bool \<times> int \<times> int"

fun pollAll :: "(int \<Rightarrow> real) \<Rightarrow> poll list \<Rightarrow> world \<Rightarrow> world" where
  "pollAll msin [] w = w"
| "pollAll msin ((rep, evOk, ssOk, now, simNow) # ps) w =
     pollAll msin ps (worldOf (checkAndRecord msin rep evOk ssOk now simNow w))"

text \<open>The ingests of one sample at the given clock readings, every append accepted.\<close>

definition ingestAt :: "sample \<Rightarrow> int list \<Rightarrow> op list" where
  "ingestAt res tms = map (Ingest True True res) tms"

text \<open>Consecutive readings at most 30 minutes apart, the first one counted from \<open>t0\<close>.\<close>

fun paced :: "int \<Rightarrow> int list \<Rightarrow> bool" where
  "paced t0 [] = True"
| "paced t0 (t # tms) = (t - t0 \<le> 30 * 60 * 1000 \<and> paced t tms)"

subsection \<open>Invariants of the Session table\<close>

text \<open>
  The Session table of a run so far: no two Sessions overlap, every Session ends by the
  latest clock reading \<open>T\<close>, and every Session's end is covered by an Event of the
  identity that is not earlier.
\<close>

definition ledger :: "int \<Rightarrow> world \<Rightarrow> bool" where
  "ledger T w =
    (noOverlap (sessions w) \<and>
     (\<forall>s\<in>set (sessions w).
        endTs s \<le> T \<and>
        (\<exists>e\<in>set (events w). evUsername e = username w \<and> endTs s \<le> timestamp e)))"

text \<open>Moreover a held session start is not earlier than the end of any Session.\<close>

definition tidy :: "int \<Rightarrow> world \<Rightarrow> bool" where
  "tidy T w =
    (ledger T w \<and>
     (\<forall>c. currentSessionStart w = Some c \<longrightarrow> (\<forall>s\<in>set (sessions w). endTs s \<le> c)))"

text \<open>An entry point called with a clock reading other than 0.\<close>

fun stamped :: "op \<Rightarrow> bool" where
  "stamped (Ingest evOk ssOk res t) = (t \<noteq> 0)"
| "stamped (Reopen evOk ssOk res t) = (t \<noteq> 0)"
| "stamped (ReopenReads rdOk repairOk evOk ssOk res t) = (t \<noteq> 0)"
| "stamped Repair = True"
| "stamped (WorkerSave evOk ssOk uname res t) = (t \<noteq> 0)"

text \<open>A session start is held while the last known status is online, and no Event
  carries the timestamp 0.\<close>

definition marked :: "world \<Rightarrow> bool" where
  "marked w = (sessionOpenWhenOnline w \<and> (\<forall>e\<in>set (events w). timestamp e \<noteq> 0))"

section \<open>Properties\<close>

lemmas ingest_defs =
  onStatusResult_def addStatusEvent_def commitStatus_def updateUILive_def andThen_def
  worldOf_def dbAdd_def stateChanged_def heartbeatMs_def

lemmas run_defs =
  ingest_defs onReopenFillGap_def onReopenFillGapReads_def repairStateFromDB_def
  lastEvent_def forUser_def
  workerSaveEvent_def closedDuration_def truthyNum_def truthyStr_def orNull_def world0_def
  jogoA_def offline_def Let_def

subsection \<open>The most recent event of the identity\<close>



lemma last_sort_key_max:
  assumes "xs \<noteq> []" and "y \<in> set xs"
  shows "f y \<le> f (last (sort_key f xs))"
proof -
  let ?s = "sort_key f xs"
  have ne: "?s \<noteq> []" using assms(1) by (metis length_0_conv length_sort)
  have srt: "sorted (map f ?s)" by simp
  have "y \<in> set ?s" using assms(2) by simp
  then obtain i where i: "i < length ?s" "?s ! i = y"
    unfolding in_set_conv_nth by blast
  have "map f ?s ! i \<le> map f ?s ! (length ?s - 1)"
    using srt i(1) by (intro sorted_nth_mono) auto
  then show ?thesis using i ne by (simp add: last_conv_nth)
qed

lemma lastEvent_mem:
  "lastEvent w = Some e \<Longrightarrow> e \<in> set (events w) \<and> evUsername e = username w"
proof -
  assume a: "lastEvent w = Some e"
  then have ne: "forUser w \<noteq> []" and e: "e = last (forUser w)"
    by (auto simp: lastEvent_def split: if_splits)
  then have "e \<in> set (forUser w)" by simp
  then show ?thesis by (simp add: forUser_def)
qed

lemma lastEvent_max:
  assumes "lastEvent w = Some e" and "x \<in> set (events w)" and "evUsername x = username w"
  shows "timestamp x \<le> timestamp e"
proof -
  let ?xs = "filter (\<lambda>e. evUsername e = username w) (events w)"
  have x: "x \<in> set ?xs" using assms by simp
  then have ne: "?xs \<noteq> []" by (metis list.set(1) empty_iff)
  have "e = last (sort_key timestamp ?xs)"
    using assms(1) by (auto simp: lastEvent_def forUser_def split: if_splits)
  then show ?thesis using last_sort_key_max [OF ne x, of timestamp] by simp
qed

lemma sort_key_Nil_iff: "sort_key f xs = [] \<longleftrightarrow> xs = []"
  by (metis length_0_conv length_sort)

lemma lastEvent_None:
  "lastEvent w = None \<longleftrightarrow> (\<forall>x\<in>set (events w). evUsername x \<noteq> username w)"
  by (simp add: lastEvent_def forUser_def sort_key_Nil_iff filter_empty_conv)


lemma lastEvent_frame [simp]:
  "lastEvent (w\<lparr>sessions := s\<rparr>) = lastEvent w"
  "lastEvent (w\<lparr>currentSessionStart := c\<rparr>) = lastEvent w"
  "lastEvent (w\<lparr>lastKnownStatus := l\<rparr>) = lastEvent w"
  by (simp_all add: lastEvent_def forUser_def)

subsection \<open>Ingest: when an event is written\<close>

text \<open>
  C1 (as amended). A call of \<open>onStatusResult\<close> with a sample \<open>res\<close> at time \<open>t\<close> writes an
  Event exactly when the store accepts the append (\<open>evOk\<close>) and there is no last known
  status, or the online flag differs from the last known one, or both are online and the
  activity differs, or the state is unchanged and more than 30 minutes have passed since
  the last known status' \<open>ts\<close>. The Event carries the sample and \<open>t\<close>; in the last case, and
  only then, it has \<open>heartbeat = True\<close>. In that last case \<open>currentSessionStart\<close> is left as
  it was when the state holds a session start while its last known status is online
  (\<open>sessionOpenWhenOnline\<close>); when it holds none, the sample is online and the append is
  accepted, \<open>currentSessionStart\<close> becomes \<open>t\<close> (\<^verbatim>\<open>updateUILive\<close>, lines 456-459). The
  sample's activity is read as \<^verbatim>\<open>res.gameName || null\<close>.
\<close>

theorem ingest_persists_event_iff:
  shows
    "let onl = online res; game = orNull (gameName res);
         w' = worldOf (onStatusResult evOk ssOk res t w);
         beat = (\<exists>lk. lastKnownStatus w = Some lk \<and> online lk = onl
                   \<and> \<not> (onl \<and> gameName lk \<noteq> game) \<and> t - ts lk > 30 * 60 * 1000);
         written = (lastKnownStatus w = None
                   \<or> (\<exists>lk. lastKnownStatus w = Some lk
                         \<and> (online lk \<noteq> onl \<or> (online lk \<and> onl \<and> gameName lk \<noteq> game)))
                   \<or> beat)
     in events w' =
          (if written \<and> evOk
           then events w @ [\<lparr>online = onl, gameName = game, evUsername = username w,
                              timestamp = t, heartbeat = beat\<rparr>]
           else events w)
        \<and> (beat \<and> sessionOpenWhenOnline w \<longrightarrow>
             currentSessionStart w' = currentSessionStart w)
        \<and> (beat \<and> evOk \<and> onl \<and> currentSessionStart w = None \<longrightarrow>
             currentSessionStart w' = Some t)"
proof (cases "lastKnownStatus w")
  case None
  then show ?thesis
    by (auto simp: ingest_defs Let_def orNull_def truthyNum_def split: option.splits)
next
  case (Some lk)
  then show ?thesis
    by (auto simp: ingest_defs Let_def orNull_def truthyNum_def sessionOpenWhenOnline_def
             split: option.splits)
qed

theorem ingest_persists_event_iff_witness:
  "events (worldOf (onStatusResult True True jogoA 1801001
             (run [Ingest True True jogoA 1000] (world0 ''abc'')))) =
     [\<lparr>online = True, gameName = Some ''Jogo A'', evUsername = ''abc'', timestamp = 1000,
       heartbeat = False\<rparr>,
      \<lparr>online = True, gameName = Some ''Jogo A'', evUsername = ''abc'', timestamp = 1801001,
       heartbeat = True\<rparr>]
   \<and> currentSessionStart (worldOf (onStatusResult True True jogoA 1801001
             (run [Ingest True True jogoA 1000] (world0 ''abc'')))) = Some 1000"
proof -
  let ?w = "run [Ingest True True jogoA 1000] (world0 ''abc'')"
  have w: "?w = \<lparr>username = ''abc'', useSimulator = False,
      lastKnownStatus = Some \<lparr>online = True, gameName = Some ''Jogo A'', ts = 1000\<rparr>,
      currentSessionStart = Some 1000,
      events = [\<lparr>online = True, gameName = Some ''Jogo A'', evUsername = ''abc'',
                 timestamp = 1000, heartbeat = False\<rparr>],
      sessions = [], rb_use_sim = ''false'', realFetches = 0\<rparr>"
    by (simp add: run_defs)
  have h: "sessionOpenWhenOnline ?w"
    unfolding w by (simp add: sessionOpenWhenOnline_def truthyNum_def)
  show ?thesis
    using ingest_persists_event_iff [of jogoA True True 1801001 ?w] h
    unfolding w
    by (simp add: Let_def jogoA_def orNull_def truthyStr_def)
qed

text \<open>
  Without those conditions the property fails. With no last known status and the append
  rejected, no Event is written. And after a first online ingest at the clock reading 0
  the held start is 0, which \<^verbatim>\<open>updateUILive\<close> (line 456) reads as no start: the heartbeat
  ingest at 1800001 writes its Event and moves \<open>currentSessionStart\<close> from 0 to 1800001.
\<close>

theorem ingest_event_counterexample:
  "lastKnownStatus (world0 ''abc'') = None
   \<and> events (worldOf (onStatusResult False True jogoA 1000 (world0 ''abc''))) = []
   \<and> currentSessionStart (run [Ingest True True jogoA 0] (world0 ''abc'')) = Some 0
   \<and> events (run [Ingest True True jogoA 0, Ingest True True jogoA 1800001] (world0 ''abc'')) =
       [\<lparr>online = True, gameName = Some ''Jogo A'', evUsername = ''abc'', timestamp = 0,
         heartbeat = False\<rparr>,
        \<lparr>online = True, gameName = Some ''Jogo A'', evUsername = ''abc'', timestamp = 1800001,
         heartbeat = True\<rparr>]
   \<and> currentSessionStart
       (run [Ingest True True jogoA 0, Ingest True True jogoA 1800001] (world0 ''abc'')) =
       Some 1800001"
  by (simp add: run_defs)

subsection \<open>Ingest: closing a session\<close>

text \<open>
  C2 (as amended). An ingest of an offline sample at \<open>t\<close> while the last known status is
  online and \<open>currentSessionStart\<close> holds a non-zero start, with both appends accepted,
  writes the offline Event and exactly one Session with \<open>startTs\<close> the held start,
  \<open>endTs = t\<close>, \<open>durationSec = max 0 ((t - start) div 1000)\<close> and the activity of the last
  known status when it has one, otherwise the activity of the offline sample; it then
  clears \<open>currentSessionStart\<close>.
\<close>

theorem ingest_offline_closes_session:
  assumes "lastKnownStatus w = Some lk" and "online lk"
    and "currentSessionStart w = Some start" and "start \<noteq> 0"
    and "\<not> online res" and "evOk" and "ssOk"
  shows "onStatusResult evOk ssOk res t w =
          Inr (w\<lparr>events := events w @
                     [\<lparr>online = False, gameName = orNull (gameName res),
                       evUsername = username w, timestamp = t, heartbeat = False\<rparr>],
                 sessions := sessions w @
                     [\<lparr>ssUsername = username w, startTs = start, endTs = t,
                       durationSec = max 0 ((t - start) div 1000),
                       ssGameName = (if truthyStr (gameName lk) then gameName lk
                                     else orNull (gameName res))\<rparr>],
                 currentSessionStart := None,
                 lastKnownStatus :=
                   Some \<lparr>online = False, gameName = orNull (gameName res), ts = t\<rparr>\<rparr>)"
  using assms
  by (simp add: ingest_defs Let_def closedDuration_def orNull_def truthyStr_def)

text \<open>Online with "Jogo A" at 1000 ms, offline 600 s later: one Session of 600 s.\<close>

theorem ingest_offline_closes_session_witness:
  "sessions (run [Ingest True True jogoA 1000, Ingest True True offline 601000] (world0 ''abc'')) =
     [\<lparr>ssUsername = ''abc'', startTs = 1000, endTs = 601000, durationSec = 600,
       ssGameName = Some ''Jogo A''\<rparr>]
   \<and> currentSessionStart
       (run [Ingest True True jogoA 1000, Ingest True True offline 601000] (world0 ''abc'')) = None"
proof -
  let ?w = "run [Ingest True True jogoA 1000] (world0 ''abc'')"
  have w: "?w = \<lparr>username = ''abc'', useSimulator = False,
      lastKnownStatus = Some \<lparr>online = True, gameName = Some ''Jogo A'', ts = 1000\<rparr>,
      currentSessionStart = Some 1000,
      events = [\<lparr>online = True, gameName = Some ''Jogo A'', evUsername = ''abc'',
                 timestamp = 1000, heartbeat = False\<rparr>],
      sessions = [], rb_use_sim = ''false'', realFetches = 0\<rparr>"
    by (simp add: run_defs)
  have h1: "lastKnownStatus ?w = Some \<lparr>online = True, gameName = Some ''Jogo A'', ts = 1000\<rparr>"
    and h3: "currentSessionStart ?w = Some 1000"
    unfolding w by simp_all
  have h2: "online \<lparr>online = True, gameName = Some ''Jogo A'', ts = 1000\<rparr>" by simp
  have h4: "(1000::int) \<noteq> 0" by simp
  have h5: "\<not> online offline" by (simp add: offline_def)
  have e: "run [Ingest True True jogoA 1000, Ingest True True offline 601000] (world0 ''abc'')
        = worldOf (onStatusResult True True offline 601000 ?w)"
    by simp
  show ?thesis
    using ingest_offline_closes_session [OF h1 h2 h3 h4 h5 TrueI TrueI, of 601000]
    unfolding e w
    by (simp add: worldOf_def truthyStr_def)
qed

text \<open>
  The Session takes the offline sample's activity when the last known status has none;
  and a session opened at instant 0 is never closed, the start 0 being falsy.
\<close>

theorem session_activity_counterexample:
  "lastKnownStatus (run [Ingest True True \<lparr>online = True, gameName = None\<rparr> 1000] (world0 ''abc''))
     = Some \<lparr>online = True, gameName = None, ts = 1000\<rparr>
   \<and> sessions (run [Ingest True True \<lparr>online = True, gameName = None\<rparr> 1000,
                    Ingest True True \<lparr>online = False, gameName = Some ''Jogo (place 5)''\<rparr> 601000]
               (world0 ''abc''))
     = [\<lparr>ssUsername = ''abc'', startTs = 1000, endTs = 601000, durationSec = 600,
         ssGameName = Some ''Jogo (place 5)''\<rparr>]
   \<and> sessions (run [Ingest True True jogoA 0, Ingest True True offline 600000] (world0 ''abc'')) = []"
  by (simp add: run_defs)

subsection \<open>Gap repair: online before, offline now\<close>

text \<open>
  C3 (as amended). A gap repair that finds the identity's most recent Event \<open>lastEv\<close>
  online and the fresh sample at \<open>nowTs\<close> offline, with both appends accepted, writes
  exactly one Session with \<open>startTs = timestamp lastEv\<close>, \<open>endTs = nowTs\<close>,
  \<open>durationSec = max 0 ((nowTs - timestamp lastEv) div 1000)\<close> and the activity of
  \<open>lastEv\<close> when it has one, otherwise the sample's; and one offline Event at \<open>nowTs\<close>.
  The duration is \<open>(nowTs - timestamp lastEv) div 1000\<close> when \<open>lastEv\<close> is not later than
  \<open>nowTs\<close>.
\<close>

theorem gap_repair_closes_session:
  assumes "lastEvent w = Some lastEv" and "online lastEv" and "\<not> online cur"
    and "evOk" and "ssOk"
  shows "sessions (onReopenFillGap evOk ssOk cur nowTs w) =
           sessions w @
             [\<lparr>ssUsername = username w, startTs = timestamp lastEv, endTs = nowTs,
               durationSec = max 0 ((nowTs - timestamp lastEv) div 1000),
               ssGameName = (if truthyStr (gameName lastEv) then gameName lastEv
                             else orNull (gameName cur))\<rparr>]
       \<and> events (onReopenFillGap evOk ssOk cur nowTs w) =
           events w @
             [\<lparr>online = False, gameName = orNull (gameName cur), evUsername = username w,
               timestamp = nowTs, heartbeat = False\<rparr>]
       \<and> (timestamp lastEv \<le> nowTs \<longrightarrow>
            max 0 ((nowTs - timestamp lastEv) div 1000) = (nowTs - timestamp lastEv) div 1000)"
proof -
  have frame: "sessions (repairStateFromDB v) = sessions v \<and> events (repairStateFromDB v) = events v" for v
    by (simp add: repairStateFromDB_def split: option.splits)
  have "0 \<le> (nowTs - timestamp lastEv) div 1000" if "timestamp lastEv \<le> nowTs"
    using that by (simp add: pos_imp_zdiv_nonneg_iff)
  then show ?thesis using assms
    by (simp add: onReopenFillGap_def dbAdd_def closedDuration_def Let_def frame)
qed

text \<open>Last Event online at 1000, repair finds offline at 5000.\<close>

theorem gap_repair_closes_session_witness:
  "sessions (run [Ingest True True jogoA 1000, Reopen True True offline 5000] (world0 ''abc'')) =
     [\<lparr>ssUsername = ''abc'', startTs = 1000, endTs = 5000, durationSec = 4,
       ssGameName = Some ''Jogo A''\<rparr>]
   \<and> events (run [Ingest True True jogoA 1000, Reopen True True offline 5000] (world0 ''abc'')) =
     [\<lparr>online = True, gameName = Some ''Jogo A'', evUsername = ''abc'', timestamp = 1000,
       heartbeat = False\<rparr>,
      \<lparr>online = False, gameName = None, evUsername = ''abc'', timestamp = 5000,
       heartbeat = False\<rparr>]"
proof -
  let ?w = "run [Ingest True True jogoA 1000] (world0 ''abc'')"
  let ?e = "\<lparr>online = True, gameName = Some ''Jogo A'', evUsername = ''abc'',
                 timestamp = 1000, heartbeat = False\<rparr>"
  have w: "?w = \<lparr>username = ''abc'', useSimulator = False,
      lastKnownStatus = Some \<lparr>online = True, gameName = Some ''Jogo A'', ts = 1000\<rparr>,
      currentSessionStart = Some 1000,
      events = [?e],
      sessions = [], rb_use_sim = ''false'', realFetches = 0\<rparr>"
    by (simp add: run_defs)
  have h1: "lastEvent ?w = Some ?e" unfolding w by (simp add: lastEvent_def forUser_def)
  have h2: "online ?e" by simp
  have h3: "\<not> online offline" by (simp add: offline_def)
  have e: "run [Ingest True True jogoA 1000, Reopen True True offline 5000] (world0 ''abc'')
        = onReopenFillGap True True offline 5000 ?w"
    by simp
  show ?thesis
    using gap_repair_closes_session [OF h1 h2 h3 TrueI TrueI, of 5000]
    unfolding e w
    by (simp add: truthyStr_def orNull_def offline_def)
qed

text \<open>With the clock set back between the Event and the repair, the duration is clamped
  to 0, not the floor of the (negative) quotient.\<close>

theorem gap_duration_counterexample:
  "sessions (run [Ingest True True jogoA 5000, Reopen True True offline 1000] (world0 ''abc'')) =
     [\<lparr>ssUsername = ''abc'', startTs = 5000, endTs = 1000, durationSec = 0,
       ssGameName = Some ''Jogo A''\<rparr>]
   \<and> (1000 - 5000) div 1000 = (- 4 :: int)"
  by (simp add: run_defs)

subsection \<open>Gap repair: reconstruction and repetition\<close>

lemma repair_frame [simp]:
  "events (repairStateFromDB v) = events v"
  "sessions (repairStateFromDB v) = sessions v"
  "username (repairStateFromDB v) = username v"
  by (simp_all add: repairStateFromDB_def split: option.splits)

lemma repair_result:
  "lastEvent v = Some r \<Longrightarrow>
     repairStateFromDB v =
       v\<lparr>currentSessionStart := (if online r then Some (timestamp r) else None),
         lastKnownStatus :=
           Some \<lparr>online = online r, gameName = (if online r then gameName r else None),
                 ts = timestamp r\<rparr>\<rparr>"
  by (simp add: repairStateFromDB_def)

lemma lastEvent_repair [simp]: "lastEvent (repairStateFromDB v) = lastEvent v"
  by (simp add: lastEvent_def forUser_def)






text \<open>
  On an empty log the first repair is a plain \<open>addStatusEvent\<close>, with no reconstruction:
  it keeps the label of an offline sample in the last known status, and a second repair,
  which reconstructs the status from the Event, drops it.
\<close>

lemma first_repair_on_empty_log:
  "lastKnownStatus (run [Reopen True True \<lparr>online = False, gameName = Some ''Jogo (place 5)''\<rparr> 5000]
                        (world0 ''abc'')) =
     Some \<lparr>online = False, gameName = Some ''Jogo (place 5)'', ts = 5000\<rparr>
   \<and> lastKnownStatus (run [Reopen True True \<lparr>online = False, gameName = Some ''Jogo (place 5)''\<rparr> 5000,
                           Reopen True True \<lparr>online = False, gameName = Some ''Jogo (place 5)''\<rparr> 5000]
                        (world0 ''abc'')) =
     Some \<lparr>online = False, gameName = None, ts = 5000\<rparr>"
  by (simp add: run_defs)

subsection \<open>Session durations\<close>

lemma closedDuration_ok:
  "durationOk \<lparr>ssUsername = u, startTs = a, endTs = b, durationSec = closedDuration a b,
               ssGameName = g\<rparr>"
  by (simp add: durationOk_def closedDuration_def pos_imp_zdiv_nonneg_iff)

lemma addStatusEvent_durationOk:
  assumes "\<forall>s\<in>set (sessions w). durationOk s"
  shows "\<forall>s\<in>set (sessions (worldOf (addStatusEvent evOk ssOk u onl g t w))). durationOk s"
  using assms
  by (auto simp: addStatusEvent_def worldOf_def dbAdd_def Let_def closedDuration_ok
           split: option.splits)

lemma worldOf_andThen_commit_sessions:
  "sessions (worldOf (andThen r (commitStatus onl g t))) = sessions (worldOf r)"
  by (cases r) (auto simp: andThen_def worldOf_def commitStatus_def updateUILive_def)

lemma onStatusResult_durationOk:
  assumes "\<forall>s\<in>set (sessions w). durationOk s"
  shows "\<forall>s\<in>set (sessions (worldOf (onStatusResult evOk ssOk res t w))). durationOk s"
proof (cases "lastKnownStatus w")
  case None
  then show ?thesis
    using addStatusEvent_durationOk [OF assms]
    by (simp add: onStatusResult_def Let_def worldOf_andThen_commit_sessions)
next
  case (Some lk)
  show ?thesis
  proof (cases "stateChanged lk (online res) (orNull (gameName res))")
    case True
    with Some show ?thesis
      using addStatusEvent_durationOk [OF assms]
      by (simp add: onStatusResult_def Let_def worldOf_andThen_commit_sessions)
  next
    case False
    with Some assms show ?thesis
      by (auto simp: onStatusResult_def Let_def dbAdd_def commitStatus_def updateUILive_def
                     worldOf_def)
  qed
qed

lemma onReopenFillGap_durationOk:
  assumes "\<forall>s\<in>set (sessions w). durationOk s"
  shows "\<forall>s\<in>set (sessions (onReopenFillGap evOk ssOk res t w)). durationOk s"
proof (cases "lastEvent w")
  case None
  then show ?thesis
    using addStatusEvent_durationOk [OF assms] by (simp add: onReopenFillGap_def Let_def)
next
  case (Some lastEv)
  with assms show ?thesis
    by (auto simp: onReopenFillGap_def Let_def dbAdd_def closedDuration_ok)
qed

lemma worker_session_ok:
  "durationOk \<lparr>ssUsername = u, startTs = t - 5 * 60 * 1000, endTs = t,
               durationSec = (t - (t - 5 * 60 * 1000)) div 1000, ssGameName = g\<rparr>"
  by (simp add: durationOk_def)

lemma workerSaveEvent_sessions:
  "sessions (workerSaveEvent evOk ssOk u res t w) = sessions w \<or>
   sessions (workerSaveEvent evOk ssOk u res t w) =
     sessions w @ [\<lparr>ssUsername = u, startTs = t - 5 * 60 * 1000, endTs = t,
                     durationSec = (t - (t - 5 * 60 * 1000)) div 1000,
                     ssGameName = orNull (gameName res)\<rparr>]"
  by (simp add: workerSaveEvent_def Let_def dbAdd_def)

lemma workerSaveEvent_durationOk:
  assumes "\<forall>s\<in>set (sessions w). durationOk s"
  shows "\<forall>s\<in>set (sessions (workerSaveEvent evOk ssOk u res t w)). durationOk s"
  using workerSaveEvent_sessions [of evOk ssOk u res t w] assms worker_session_ok [of u t]
  by auto

lemma onReopenFillGapReads_accepted:
  "onReopenFillGapReads True True evOk ssOk res t w = onReopenFillGap evOk ssOk res t w"
  by (simp add: onReopenFillGapReads_def onReopenFillGap_def)

lemma onReopenFillGapReads_rejected:
  "onReopenFillGapReads False repairOk evOk ssOk res t w = w"
  by (simp add: onReopenFillGapReads_def)

lemma onReopenFillGapReads_durationOk:
  assumes "\<forall>s\<in>set (sessions w). durationOk s"
  shows "\<forall>s\<in>set (sessions (onReopenFillGapReads rdOk repairOk evOk ssOk res t w)). durationOk s"
proof (cases "lastEvent w")
  case None
  then show ?thesis
    using addStatusEvent_durationOk [OF assms] assms
    by (simp add: onReopenFillGapReads_def Let_def)
next
  case (Some lastEv)
  then show ?thesis
    using assms
    by (auto simp: onReopenFillGapReads_def Let_def dbAdd_def closedDuration_ok)
qed

lemma step_durationOk:
  assumes "\<forall>s\<in>set (sessions w). durationOk s"
  shows "\<forall>s\<in>set (sessions (step x w)). durationOk s"
proof (cases x)
  case (Ingest evOk ssOk res t)
  show ?thesis unfolding Ingest step.simps by (rule onStatusResult_durationOk [OF assms])
next
  case (Reopen evOk ssOk res t)
  show ?thesis unfolding Reopen step.simps by (rule onReopenFillGap_durationOk [OF assms])
next
  case (ReopenReads rdOk repairOk evOk ssOk res t)
  show ?thesis unfolding ReopenReads step.simps
    by (rule onReopenFillGapReads_durationOk [OF assms])
next
  case Repair
  show ?thesis unfolding Repair step.simps using assms by simp
next
  case (WorkerSave evOk ssOk uname res t)
  show ?thesis unfolding WorkerSave step.simps by (rule workerSaveEvent_durationOk [OF assms])
qed

lemma run_durationOk:
  "\<forall>s\<in>set (sessions w). durationOk s \<Longrightarrow> \<forall>s\<in>set (sessions (run ops w)). durationOk s"
proof (induction ops arbitrary: w)
  case Nil
  then show ?case by simp
next
  case (Cons x ops)
  have "\<forall>s\<in>set (sessions (step x w)). durationOk s"
    by (rule step_durationOk [OF Cons.prems])
  from Cons.IH [OF this] show ?case by simp
qed

text \<open>
  C6 (as amended). Every Session record written, by an ingest, by a gap repair or by the
  service worker's save path, in any run from empty stores and whatever the store's
  verdicts and the clock readings, has \<open>durationSec = max 0 ((endTs - startTs) div 1000)\<close>,
  so \<open>durationSec \<ge> 0\<close>; and \<open>durationSec = (endTs - startTs) div 1000\<close> whenever
  \<open>startTs \<le> endTs\<close>. Nothing orders \<open>startTs\<close> and \<open>endTs\<close> for an ingest or a gap
  repair; for the worker, \<open>startTs = endTs - 300000\<close> (\<open>worker_session_shape\<close>).
\<close>

theorem session_duration_clamped:
  "\<forall>s\<in>set (sessions (run ops (world0 u))).
     durationSec s = max 0 ((endTs s - startTs s) div 1000) \<and> 0 \<le> durationSec s \<and>
     (startTs s \<le> endTs s \<longrightarrow> durationSec s = (endTs s - startTs s) div 1000)"
proof -
  have "\<forall>s\<in>set (sessions (world0 u)). durationOk s" by (simp add: world0_def)
  from run_durationOk [OF this, of ops] show ?thesis by (simp add: durationOk_def)
qed

text \<open>The Session of scenario A is in the table and has the duration of its interval.\<close>

theorem session_duration_clamped_witness:
  "\<lparr>ssUsername = ''abc'', startTs = 1000, endTs = 601000, durationSec = 600,
     ssGameName = Some ''Jogo A''\<rparr>
     \<in> set (sessions (run [Ingest True True jogoA 1000, Ingest True True offline 601000]
                         (world0 ''abc'')))
   \<and> (600::int) = max 0 ((601000 - 1000) div 1000) \<and> (600::int) = (601000 - 1000) div 1000"
proof -
  let ?s = "\<lparr>ssUsername = ''abc'', startTs = 1000, endTs = 601000, durationSec = 600,
     ssGameName = Some ''Jogo A''\<rparr>"
  let ?ops = "[Ingest True True jogoA 1000, Ingest True True offline 601000]"
  have m: "?s \<in> set (sessions (run ?ops (world0 ''abc'')))"
    by (simp add: run_defs)
  from session_duration_clamped [of ?ops "''abc''"] m
  have "durationSec ?s = max 0 ((endTs ?s - startTs ?s) div 1000) \<and> 0 \<le> durationSec ?s \<and>
     (startTs ?s \<le> endTs ?s \<longrightarrow> durationSec ?s = (endTs ?s - startTs ?s) div 1000)"
    by (rule bspec)
  with m show ?thesis by simp
qed

text \<open>With the clock set back between the online and the offline sample, the Session
  written has \<open>startTs > endTs\<close> and the clamped duration 0 where the floor is \<open>-4\<close>.\<close>

theorem session_interval_counterexample:
  "sessions (run [Ingest True True jogoA 5000, Ingest True True offline 1000] (world0 ''abc'')) =
     [\<lparr>ssUsername = ''abc'', startTs = 5000, endTs = 1000, durationSec = 0,
       ssGameName = Some ''Jogo A''\<rparr>]
   \<and> \<not> (5000 < (1000::int)) \<and> (1000 - 5000) div 1000 \<noteq> (0::int)"
  by (simp add: run_defs)

lemma worker_session_shape:
  "sessions (workerSaveEvent True True u res t w) =
     (if online res then sessions w
      else sessions w @ [\<lparr>ssUsername = u, startTs = t - 300000, endTs = t, durationSec = 300,
                          ssGameName = orNull (gameName res)\<rparr>])"
  by (simp add: workerSaveEvent_def dbAdd_def Let_def)

subsection \<open>Heartbeats under regular polling\<close>

lemma onStatusResult_quiet:
  assumes "lastKnownStatus w = Some lk"
    and "\<not> stateChanged lk (online res) (orNull (gameName res))"
    and "t - ts lk \<le> 30 * 60 * 1000"
  shows "onStatusResult evOk ssOk res t w =
           commitStatus (online res) (orNull (gameName res)) t w"
  using assms by (simp add: onStatusResult_def Let_def heartbeatMs_def)

lemma commitStatus_quiet:
  "events (worldOf (commitStatus onl g t w)) = events w
   \<and> lastKnownStatus (worldOf (commitStatus onl g t w)) =
        Some \<lparr>online = onl, gameName = g, ts = t\<rparr>"
  by (simp add: commitStatus_def updateUILive_def worldOf_def)

lemma unchanged_polls_never_write:
  assumes "lastKnownStatus w = Some lk"
    and "\<not> stateChanged lk (online res) (orNull (gameName res))"
    and "paced (ts lk) tms"
  shows "events (run (ingestAt res tms) w) = events w"
  using assms
proof (induction tms arbitrary: w lk)
  case Nil
  then show ?case by (simp add: ingestAt_def)
next
  case (Cons t tms)
  let ?w' = "worldOf (commitStatus (online res) (orNull (gameName res)) t w)"
  let ?lk' = "\<lparr>online = online res, gameName = orNull (gameName res), ts = t\<rparr>"
  from Cons.prems have near: "t - ts lk \<le> 30 * 60 * 1000" and rest: "paced t tms"
    by simp_all
  have st: "step (Ingest True True res t) w = ?w'"
    using onStatusResult_quiet [OF Cons.prems(1) Cons.prems(2) near] by simp
  have lk': "lastKnownStatus ?w' = Some ?lk'" and ev': "events ?w' = events w"
    using commitStatus_quiet [of "online res" "orNull (gameName res)" t w] by simp_all
  have same: "\<not> stateChanged ?lk' (online res) (orNull (gameName res))"
    by (simp add: stateChanged_def)
  have "paced (ts ?lk') tms" using rest by simp
  from Cons.IH [OF lk' same this] have "events (run (ingestAt res tms) ?w') = events ?w'" .
  then show ?case using st ev' by (simp add: ingestAt_def)
qed

text \<open>
  C7. The claim: an unchanged sample ingested every 60 s writes no Event for the first 29
  minutes and exactly one heartbeat Event at minute 31. The code: line 393 moves the last
  known status' \<open>ts\<close> to the poll's time on every ingest, so the elapsed time tested at
  line 381 is one poll period and never exceeds 30 minutes
  (\<open>unchanged_polls_never_write\<close>). Evaluated at polls every 60 s from 1000 ms up to minute
  31: the Event log still holds the initial Event only, and no heartbeat.
\<close>

theorem no_heartbeat_at_minute_31:
  "events (run (ingestAt jogoA (map (\<lambda>k. 1000 + 60000 * int k) [0..<32])) (world0 ''abc'')) =
     [\<lparr>online = True, gameName = Some ''Jogo A'', evUsername = ''abc'', timestamp = 1000,
       heartbeat = False\<rparr>]"
proof -
  let ?w = "run [Ingest True True jogoA 1000] (world0 ''abc'')"
  let ?lk = "\<lparr>online = True, gameName = Some ''Jogo A'', ts = 1000\<rparr>"
  let ?tms = "map (\<lambda>k. 1000 + 60000 * int k) [1..<32]"
  have w: "?w = \<lparr>username = ''abc'', useSimulator = False,
      lastKnownStatus = Some ?lk,
      currentSessionStart = Some 1000,
      events = [\<lparr>online = True, gameName = Some ''Jogo A'', evUsername = ''abc'',
                 timestamp = 1000, heartbeat = False\<rparr>],
      sessions = [], rb_use_sim = ''false'', realFetches = 0\<rparr>"
    by (simp add: run_defs)
  have h1: "lastKnownStatus ?w = Some ?lk" unfolding w by simp
  have h2: "\<not> stateChanged ?lk (online jogoA) (orNull (gameName jogoA))"
    by (simp add: stateChanged_def jogoA_def orNull_def truthyStr_def)
  have h3: "paced (ts ?lk) ?tms" by code_simp
  have split: "map (\<lambda>k. 1000 + 60000 * int k) [0..<32] = 1000 # ?tms"
    by code_simp
  have "run (ingestAt jogoA (1000 # ?tms)) (world0 ''abc'') = run (ingestAt jogoA ?tms) ?w"
    by (simp add: ingestAt_def)
  then have "events (run (ingestAt jogoA (1000 # ?tms)) (world0 ''abc'')) = events ?w"
    using unchanged_polls_never_write [OF h1 h2 h3] by simp
  then show ?thesis unfolding split w by simp
qed

subsection \<open>Store failures\<close>


text \<open>
  When \<open>onStatusResult\<close> throws, a store write has been rejected: the Event append, or the
  Session append of a closing ingest after its Event append was accepted. Conversely a
  rejected Event append that the call gets to makes it throw.
\<close>

lemma onStatusResult_throws_rejected:
  assumes "onStatusResult evOk ssOk res t w = Inl (e, w')"
  shows "\<not> evOk \<or> \<not> ssOk"
  using assms
  by (auto simp: ingest_defs Let_def split: if_splits option.splits)

lemma rejected_event_append_throws:
  assumes "\<not> evOk" and "lastKnownStatus w = None"
  shows "onStatusResult evOk ssOk res t w = Inl (StoreFailure, w)"
  using assms by (simp add: ingest_defs Let_def)



subsection \<open>The simulator\<close>

lemma jsRem_bounds:
  assumes "0 < y"
  shows "0 \<le> jsRem x y \<and> jsRem x y < y"
proof -
  have xy: "y * (x / y) = x" using assms by simp
  have "y * of_int \<lfloor>x / y\<rfloor> \<le> y * (x / y)"
    using assms by (intro mult_left_mono) simp_all
  then have lo: "y * of_int \<lfloor>x / y\<rfloor> \<le> x" by (simp only: xy)
  have "x / y < of_int \<lfloor>x / y\<rfloor> + 1" by linarith
  then have "y * (x / y) < y * (of_int \<lfloor>x / y\<rfloor> + 1)"
    using assms by (intro mult_strict_left_mono)
  then have hi: "x < y * (of_int \<lfloor>x / y\<rfloor> + 1)" by (simp only: xy)
  from lo hi show ?thesis by (simp add: jsRem_def algebra_simps)
qed

lemma simulated_index_in_range:
  "nat \<lfloor>jsRem x (of_nat (length games))\<rfloor> < length games"
proof -
  have "0 < (of_nat (length games) :: real)" by (simp add: games_def)
  from jsRem_bounds [OF this, of x]
  have "0 \<le> jsRem x (of_nat (length games))" and "jsRem x (of_nat (length games)) < of_nat (length games)"
    by simp_all
  then have "\<lfloor>jsRem x (of_nat (length games))\<rfloor> < int (length games)"
    by (simp add: floor_less_iff)
  moreover have "0 \<le> \<lfloor>jsRem x (of_nat (length games))\<rfloor>"
    using \<open>0 \<le> jsRem x (of_nat (length games))\<close> by simp
  ultimately show ?thesis by linarith
qed

text \<open>
  C9. For every identity string and every two clock readings in the same minute bucket,
  \<open>simulateStatus\<close> returns the same result: the same online flag and, when online, the
  same activity, which is one of the catalogue \<open>games\<close>; when offline, no activity. This
  holds whatever values \<^verbatim>\<open>Math.sin\<close> takes.
\<close>

theorem simulateStatus_same_minute:
  assumes "t1 div 60000 = t2 div 60000"
  shows "simulateStatus msin uname t1 = simulateStatus msin uname t2
       \<and> (if online (simulateStatus msin uname t1)
          then gameName (simulateStatus msin uname t1) \<in> Some ` set games
          else gameName (simulateStatus msin uname t1) = None)"
proof -
  have eq: "simulateStatus msin uname t1 = simulateStatus msin uname t2"
    using assms by (simp add: simulateStatus_def)
  have cat: "(if online (simulateStatus msin uname t1)
          then gameName (simulateStatus msin uname t1) \<in> Some ` set games
          else gameName (simulateStatus msin uname t1) = None)"
    using simulated_index_in_range by (simp add: simulateStatus_def Let_def)
  from eq cat show ?thesis by simp
qed

text \<open>Two readings of minute 1, with a sine of one half.\<close>

theorem simulateStatus_same_minute_witness:
  "simulateStatus (\<lambda>_. 1 / 2) ''abc'' 60000 = simulateStatus (\<lambda>_. 1 / 2) ''abc'' 119999
   \<and> simulateStatus (\<lambda>_. 1 / 2) ''abc'' 60000 = \<lparr>online = True, gameName = Some ''Jogo A''\<rparr>"
proof -
  have h: "(60000::int) div 60000 = 119999 div 60000" by simp
  have v: "simulateStatus (\<lambda>_. 1 / 2) ''abc'' 60000 = \<lparr>online = True, gameName = Some ''Jogo A''\<rparr>"
    by (simp add: simulateStatus_def jsRem_def games_def Let_def)
  from simulateStatus_same_minute [OF h, of "\<lambda>_. 1 / 2" "''abc''"] v show ?thesis by simp
qed

subsection \<open>Fallback to the simulator\<close>

lemma addStatusEvent_flags:
  "useSimulator (worldOf (addStatusEvent evOk ssOk u onl g t w)) = useSimulator w
   \<and> realFetches (worldOf (addStatusEvent evOk ssOk u onl g t w)) = realFetches w
   \<and> username (worldOf (addStatusEvent evOk ssOk u onl g t w)) = username w
   \<and> rb_use_sim (worldOf (addStatusEvent evOk ssOk u onl g t w)) = rb_use_sim w"
  by (simp add: addStatusEvent_def worldOf_def dbAdd_def Let_def split: option.splits)

lemma commitStatus_flags:
  "useSimulator (worldOf (commitStatus onl g t w)) = useSimulator w
   \<and> realFetches (worldOf (commitStatus onl g t w)) = realFetches w
   \<and> username (worldOf (commitStatus onl g t w)) = username w
   \<and> rb_use_sim (worldOf (commitStatus onl g t w)) = rb_use_sim w"
  by (simp add: commitStatus_def updateUILive_def worldOf_def)

lemma worldOf_andThen_commit:
  "worldOf (andThen r (commitStatus onl g t)) =
     (case r of Inl (e, v) \<Rightarrow> v | Inr v \<Rightarrow> worldOf (commitStatus onl g t v))"
  by (cases r) (auto simp: andThen_def worldOf_def)

lemma andThen_flags:
  assumes "useSimulator (worldOf r) = useSimulator w \<and> realFetches (worldOf r) = realFetches w
           \<and> username (worldOf r) = username w \<and> rb_use_sim (worldOf r) = rb_use_sim w"
  shows "useSimulator (worldOf (andThen r (commitStatus onl g t))) = useSimulator w
       \<and> realFetches (worldOf (andThen r (commitStatus onl g t))) = realFetches w
       \<and> username (worldOf (andThen r (commitStatus onl g t))) = username w
       \<and> rb_use_sim (worldOf (andThen r (commitStatus onl g t))) = rb_use_sim w"
proof (cases r)
  case (Inl x)
  with assms show ?thesis by (simp add: andThen_def)
next
  case (Inr v)
  with assms have "useSimulator v = useSimulator w \<and> realFetches v = realFetches w
           \<and> username v = username w \<and> rb_use_sim v = rb_use_sim w"
    by (simp add: worldOf_def)
  with Inr show ?thesis
    using commitStatus_flags [of onl g t v] by (simp add: andThen_def)
qed

lemma onStatusResult_flags:
  "useSimulator (worldOf (onStatusResult evOk ssOk res t w)) = useSimulator w
   \<and> realFetches (worldOf (onStatusResult evOk ssOk res t w)) = realFetches w
   \<and> username (worldOf (onStatusResult evOk ssOk res t w)) = username w
   \<and> rb_use_sim (worldOf (onStatusResult evOk ssOk res t w)) = rb_use_sim w"
proof (cases "lastKnownStatus w")
  case None
  then show ?thesis
    using andThen_flags [OF addStatusEvent_flags]
    by (simp add: onStatusResult_def Let_def)
next
  case (Some lk)
  show ?thesis
  proof (cases "stateChanged lk (online res) (orNull (gameName res))")
    case True
    with Some show ?thesis
      using andThen_flags [OF addStatusEvent_flags]
      by (simp add: onStatusResult_def Let_def)
  next
    case False
    with Some show ?thesis
      by (simp add: onStatusResult_def Let_def dbAdd_def commitStatus_def updateUILive_def
                    worldOf_def)
  qed
qed

lemma checkAndRecord_simulating:
  assumes "useSimulator w" and "username w \<noteq> []"
  shows "checkAndRecord msin rep evOk ssOk now simNow w =
           onStatusResult evOk ssOk (simulateStatus msin (username w) simNow) now w"
  using assms by (simp add: checkAndRecord_def fetchRobloxStatus_def)

lemma poll_simulating:
  assumes "useSimulator w"
  shows "useSimulator (worldOf (checkAndRecord msin rep evOk ssOk now simNow w))
       \<and> realFetches (worldOf (checkAndRecord msin rep evOk ssOk now simNow w)) = realFetches w
       \<and> username (worldOf (checkAndRecord msin rep evOk ssOk now simNow w)) = username w"
proof (cases "username w = []")
  case True
  with assms show ?thesis by (simp add: checkAndRecord_def worldOf_def)
next
  case False
  with assms show ?thesis
    using onStatusResult_flags [of evOk ssOk "simulateStatus msin (username w) simNow" now w]
    by (simp add: checkAndRecord_simulating)
qed

lemma pollAll_simulating:
  "useSimulator w \<Longrightarrow>
     useSimulator (pollAll msin ps w) \<and> realFetches (pollAll msin ps w) = realFetches w
     \<and> username (pollAll msin ps w) = username w"
proof (induction ps arbitrary: w)
  case Nil
  then show ?case by simp
next
  case (Cons p ps)
  obtain rep evOk ssOk now simNow where p: "p = (rep, evOk, ssOk, now, simNow)"
    by (cases p) auto
  let ?w' = "worldOf (checkAndRecord msin rep evOk ssOk now simNow w)"
  from poll_simulating [OF Cons.prems, of msin rep evOk ssOk now simNow]
  have a: "useSimulator ?w'" and b: "realFetches ?w' = realFetches w"
    and c: "username ?w' = username w"
    by simp_all
  from Cons.IH [OF a] b c show ?case by (simp add: p)
qed

lemma poll_fallback:
  assumes "username w \<noteq> []" and "\<not> useSimulator w"
  shows "useSimulator (worldOf (checkAndRecord msin (Unavailable reason) evOk ssOk now simNow w))
       \<and> rb_use_sim (worldOf (checkAndRecord msin (Unavailable reason) evOk ssOk now simNow w))
           = ''true''
       \<and> realFetches (worldOf (checkAndRecord msin (Unavailable reason) evOk ssOk now simNow w))
           = Suc (realFetches w)
       \<and> username (worldOf (checkAndRecord msin (Unavailable reason) evOk ssOk now simNow w))
           = username w"
proof -
  let ?w2 = "w\<lparr>realFetches := Suc (realFetches w), useSimulator := True, rb_use_sim := ''true''\<rparr>"
  have "checkAndRecord msin (Unavailable reason) evOk ssOk now simNow w =
          onStatusResult evOk ssOk (simulateStatus msin (username w) simNow) now ?w2"
    using assms by (simp add: checkAndRecord_def fetchRobloxStatus_def Let_def)
  then show ?thesis
    using onStatusResult_flags [of evOk ssOk "simulateStatus msin (username w) simNow" now ?w2]
    by simp
qed

text \<open>
  C10. When a poll with a user name set and the simulator flag off gets a failure from
  the real source (every failure \<open>fetchRobloxStatus\<close> reports is fallback-eligible),
  \<open>checkAndRecord\<close> sets \<open>useSimulator\<close> and stores \<^verbatim>\<open>rb_use_sim = 'true'\<close>, whether or not
  the ingest that follows throws. That poll consulted the real source once. After any
  further polls the flag is still set and the count of real requests has not moved, and
  every further poll is the ingest of the simulator's sample, whatever the real source
  would have answered. Nothing in a poll clears the flag.
\<close>

theorem fallback_switches_to_simulator:
  assumes "username w \<noteq> []" and "\<not> useSimulator w"
  shows "useSimulator (worldOf (checkAndRecord msin (Unavailable reason) evOk ssOk now simNow w))
       \<and> rb_use_sim (worldOf (checkAndRecord msin (Unavailable reason) evOk ssOk now simNow w))
           = ''true''
       \<and> realFetches (worldOf (checkAndRecord msin (Unavailable reason) evOk ssOk now simNow w))
           = Suc (realFetches w)
       \<and> (\<forall>ps. useSimulator
                  (pollAll msin ps
                    (worldOf (checkAndRecord msin (Unavailable reason) evOk ssOk now simNow w)))
              \<and> realFetches
                  (pollAll msin ps
                    (worldOf (checkAndRecord msin (Unavailable reason) evOk ssOk now simNow w)))
                  = Suc (realFetches w))
       \<and> (\<forall>ps rep a b n sn.
             checkAndRecord msin rep a b n sn
               (pollAll msin ps
                 (worldOf (checkAndRecord msin (Unavailable reason) evOk ssOk now simNow w)))
             = onStatusResult a b (simulateStatus msin (username w) sn) n
                 (pollAll msin ps
                   (worldOf (checkAndRecord msin (Unavailable reason) evOk ssOk now simNow w))))"
proof -
  let ?w1 = "worldOf (checkAndRecord msin (Unavailable reason) evOk ssOk now simNow w)"
  from poll_fallback [OF assms, of msin reason evOk ssOk now simNow]
  have s: "useSimulator ?w1" and l: "rb_use_sim ?w1 = ''true''"
    and f: "realFetches ?w1 = Suc (realFetches w)" and u: "username ?w1 = username w"
    by simp_all
  have later: "useSimulator (pollAll msin ps ?w1)
      \<and> realFetches (pollAll msin ps ?w1) = Suc (realFetches w)
      \<and> username (pollAll msin ps ?w1) = username w" for ps
    using pollAll_simulating [OF s, of msin ps] f u by simp
  have sim: "checkAndRecord msin rep a b n sn (pollAll msin ps ?w1)
      = onStatusResult a b (simulateStatus msin (username w) sn) n (pollAll msin ps ?w1)"
    for ps rep a b n sn
    using checkAndRecord_simulating [of "pollAll msin ps ?w1" msin rep a b n sn]
      later [of ps] assms(1)
    by simp
  from s l f later sim show ?thesis by blast
qed

text \<open>A failed fetch at minute 1, then a poll at minute 2 for which the real source would
  answer: still one real request.\<close>

theorem fallback_switches_to_simulator_witness:
  "useSimulator (worldOf (checkAndRecord (\<lambda>_. 1 / 2) (Unavailable ''Failed to fetch'')
                   True True 60000 60001 (world0 ''abc'')))
   \<and> realFetches
       (pollAll (\<lambda>_. 1 / 2) [(Presence offline, True, True, 120000, 120001)]
         (worldOf (checkAndRecord (\<lambda>_. 1 / 2) (Unavailable ''Failed to fetch'')
                     True True 60000 60001 (world0 ''abc'')))) = Suc 0"
proof -
  have h1: "username (world0 ''abc'') \<noteq> []" and h2: "\<not> useSimulator (world0 ''abc'')"
    by (simp_all add: world0_def)
  have r: "realFetches (world0 ''abc'') = 0" by (simp add: world0_def)
  from fallback_switches_to_simulator [OF h1 h2, of "\<lambda>_. 1 / 2" "''Failed to fetch''"
         True True 60000 60001]
  show ?thesis unfolding r by blast
qed

text \<open>Without a failure the real source is consulted at every poll.\<close>

lemma real_source_consulted_before_fallback:
  "realFetches (pollAll (\<lambda>_. 1 / 2)
      [(Presence offline, True, True, 60000, 60001), (Presence offline, True, True, 120000, 120001)]
      (world0 ''abc'')) = 2"
  by (simp add: checkAndRecord_def fetchRobloxStatus_def onStatusResult_flags world0_def)

subsection \<open>Sessions never overlap\<close>

lemma noOverlap_snoc:
  assumes "noOverlap ss" and "\<forall>r\<in>set ss. endTs r \<le> startTs s"
  shows "noOverlap (ss @ [s])"
  using assms by (auto simp: noOverlap_def sorted_wrt_append overlap_def)

lemma ledger_keep:
  assumes "ledger T w" and "T \<le> t" and "username w' = username w"
    and "set (events w) \<subseteq> set (events w')" and "sessions w' = sessions w"
  shows "ledger t w'"
  using assms unfolding ledger_def by (simp add: subset_iff) (meson order_trans)

lemma ledger_close:
  assumes "ledger T w" and "T \<le> t" and "username w' = username w"
    and "set (events w) \<subseteq> set (events w')" and "sessions w' = sessions w @ [s]"
    and "\<forall>r\<in>set (sessions w). endTs r \<le> startTs s" and "endTs s = t"
    and "\<exists>e\<in>set (events w'). evUsername e = username w \<and> timestamp e = t"
  shows "ledger t w'"
proof -
  have no: "noOverlap (sessions w')"
    using assms(1,5,6) by (simp add: ledger_def noOverlap_snoc)
  have old: "endTs r \<le> t \<and> (\<exists>e\<in>set (events w'). evUsername e = username w' \<and> endTs r \<le> timestamp e)"
    if "r \<in> set (sessions w)" for r
  proof -
    from that assms(1) obtain e where "endTs r \<le> T" "e \<in> set (events w)"
      "evUsername e = username w" "endTs r \<le> timestamp e"
      by (auto simp: ledger_def)
    with assms(2,3,4) show ?thesis by auto
  qed
  have new: "endTs s \<le> t \<and> (\<exists>e\<in>set (events w'). evUsername e = username w' \<and> endTs s \<le> timestamp e)"
    using assms(3,7,8) by auto
  from no old new show ?thesis by (auto simp: ledger_def assms(5))
qed

lemma tidy_keep:
  assumes "tidy T w" and "T \<le> t" and "username w' = username w"
    and "set (events w) \<subseteq> set (events w')" and "sessions w' = sessions w"
    and "currentSessionStart w' = currentSessionStart w \<or> currentSessionStart w' = Some t
         \<or> currentSessionStart w' = None"
  shows "tidy t w'"
proof -
  have l: "ledger t w'" using assms(1) ledger_keep [OF _ assms(2,3,4,5)] by (simp add: tidy_def)
  have "\<forall>s\<in>set (sessions w). endTs s \<le> t"
    using assms(1,2) by (auto simp: tidy_def ledger_def)
  with assms(1,5,6) l show ?thesis by (auto simp: tidy_def)
qed

lemma tidy_close:
  assumes "tidy T w" and "T \<le> t" and "username w' = username w"
    and "set (events w) \<subseteq> set (events w')" and "sessions w' = sessions w @ [s]"
    and "currentSessionStart w = Some (startTs s)" and "endTs s = t"
    and "\<exists>e\<in>set (events w'). evUsername e = username w \<and> timestamp e = t"
    and "currentSessionStart w' = None"
  shows "tidy t w'"
proof -
  have before: "\<forall>r\<in>set (sessions w). endTs r \<le> startTs s"
    using assms(1,6) by (simp add: tidy_def)
  have "ledger T w" using assms(1) by (simp add: tidy_def)
  from ledger_close [OF this assms(2,3,4,5) before assms(7,8)] assms(9)
  show ?thesis by (simp add: tidy_def)
qed

lemma addStatusEvent_tidy:
  assumes "tidy T w" and "T \<le> t"
  shows "tidy t (worldOf (addStatusEvent evOk ssOk (username w) onl g t w))"
proof (cases evOk)
  case False
  then have "worldOf (addStatusEvent evOk ssOk (username w) onl g t w) = w"
    by (simp add: addStatusEvent_def dbAdd_def worldOf_def Let_def)
  then show ?thesis using tidy_keep [OF assms, of w] by simp
next
  case True
  note ev = this
  show ?thesis
  proof (cases "\<not> onl \<and> ssOk \<and> (\<exists>c. currentSessionStart w = Some c \<and> c \<noteq> 0)")
    case True
    then obtain c where c: "currentSessionStart w = Some c" "c \<noteq> 0" by blast
    let ?w' = "worldOf (addStatusEvent evOk ssOk (username w) onl g t w)"
    from True ev c have shape:
      "username ?w' = username w" "set (events w) \<subseteq> set (events ?w')"
      "\<exists>g'. sessions ?w' = sessions w @
         [\<lparr>ssUsername = username w, startTs = c, endTs = t, durationSec = closedDuration c t,
           ssGameName = g'\<rparr>]"
      "\<exists>e\<in>set (events ?w'). evUsername e = username w \<and> timestamp e = t"
      "currentSessionStart ?w' = None"
      by (auto simp: addStatusEvent_def dbAdd_def worldOf_def Let_def)
    from shape(3) obtain g' where ss: "sessions ?w' = sessions w @
         [\<lparr>ssUsername = username w, startTs = c, endTs = t, durationSec = closedDuration c t,
           ssGameName = g'\<rparr>]" by blast
    show ?thesis
      by (rule tidy_close [OF assms shape(1,2) ss _ _ shape(4,5)]) (simp_all add: c)
  next
    case False
    let ?w' = "worldOf (addStatusEvent evOk ssOk (username w) onl g t w)"
    from False ev have shape:
      "username ?w' = username w" "set (events w) \<subseteq> set (events ?w')"
      "sessions ?w' = sessions w"
      "currentSessionStart ?w' = currentSessionStart w \<or> currentSessionStart ?w' = Some t
         \<or> currentSessionStart ?w' = None"
      by (auto simp: addStatusEvent_def dbAdd_def worldOf_def Let_def truthyNum_def
               split: option.splits)
    show ?thesis by (rule tidy_keep [OF assms shape])
  qed
qed

lemma commitStatus_tidy:
  assumes "tidy t w"
  shows "tidy t (worldOf (commitStatus onl g t w))"
proof -
  let ?w' = "worldOf (commitStatus onl g t w)"
  have shape:
      "username ?w' = username w" "set (events w) \<subseteq> set (events ?w')"
      "sessions ?w' = sessions w"
      "currentSessionStart ?w' = currentSessionStart w \<or> currentSessionStart ?w' = Some t
         \<or> currentSessionStart ?w' = None"
    by (auto simp: commitStatus_def updateUILive_def worldOf_def)
  show ?thesis by (rule tidy_keep [OF assms order_refl shape])
qed

lemma andThen_commit_tidy:
  assumes "tidy t (worldOf r)"
  shows "tidy t (worldOf (andThen r (commitStatus onl g t)))"
proof (cases r)
  case (Inl x)
  with assms show ?thesis by (simp add: andThen_def)
next
  case (Inr v)
  with assms have "tidy t v" by (simp add: worldOf_def)
  from commitStatus_tidy [OF this, of onl g] Inr show ?thesis by (simp add: andThen_def)
qed

lemma onStatusResult_tidy:
  assumes "tidy T w" and "T \<le> t"
  shows "tidy t (worldOf (onStatusResult evOk ssOk res t w))"
proof (cases "lastKnownStatus w")
  case None
  then show ?thesis
    using andThen_commit_tidy [OF addStatusEvent_tidy [OF assms]]
    by (simp add: onStatusResult_def Let_def)
next
  case (Some lk)
  show ?thesis
  proof (cases "stateChanged lk (online res) (orNull (gameName res))")
    case True
    with Some show ?thesis
      using andThen_commit_tidy [OF addStatusEvent_tidy [OF assms]]
      by (simp add: onStatusResult_def Let_def)
  next
    case False
    note quiet = this
    show ?thesis
    proof (cases "t - ts lk > heartbeatMs \<and> evOk")
      case True
      let ?v = "w\<lparr>events := events w @
                    [\<lparr>online = online res, gameName = orNull (gameName res),
                      evUsername = username w, timestamp = t, heartbeat = True\<rparr>],
                  lastKnownStatus := Some (lk\<lparr>ts := t\<rparr>)\<rparr>"
      have "tidy t ?v" by (rule tidy_keep [OF assms]) auto
      from commitStatus_tidy [OF this, of "online res" "orNull (gameName res)"]
      show ?thesis using Some quiet True
        by (simp add: onStatusResult_def Let_def dbAdd_def)
    next
      case False
      have stay: "tidy t w" by (rule tidy_keep [OF assms]) auto
      from commitStatus_tidy [OF stay, of "online res" "orNull (gameName res)"] stay
      show ?thesis using Some quiet False
        by (auto simp: onStatusResult_def Let_def dbAdd_def worldOf_def)
    qed
  qed
qed

lemma ledger_ends_before_last:
  assumes "ledger T w" and "lastEvent w = Some lastEv" and "s \<in> set (sessions w)"
  shows "endTs s \<le> timestamp lastEv"
proof -
  from assms(1,3) obtain e where "e \<in> set (events w)" "evUsername e = username w"
    "endTs s \<le> timestamp e"
    by (auto simp: ledger_def)
  with lastEvent_max [OF assms(2)] show ?thesis by force
qed

lemma repair_tidy:
  assumes "ledger T w" and "lastEvent w \<noteq> None"
  shows "tidy T (repairStateFromDB w)"
proof -
  from assms(2) obtain lastEv where le: "lastEvent w = Some lastEv" by blast
  have l: "ledger T (repairStateFromDB w)"
    by (rule ledger_keep [OF assms(1) order_refl]) simp_all
  have "\<forall>s\<in>set (sessions w). endTs s \<le> timestamp lastEv"
    using ledger_ends_before_last [OF assms(1) le] by blast
  then show ?thesis using l by (simp add: tidy_def repair_result [OF le])
qed

lemma repair_tidy_any:
  assumes "tidy T w"
  shows "tidy T (repairStateFromDB w)"
proof (cases "lastEvent w")
  case None
  then show ?thesis using assms by (simp add: repairStateFromDB_def)
next
  case (Some lastEv)
  then show ?thesis using repair_tidy [of T w] assms by (simp add: tidy_def)
qed

lemma onReopenFillGap_tidy:
  assumes "tidy T w" and "T \<le> t" and "ssOk \<longrightarrow> evOk"
  shows "tidy t (onReopenFillGap evOk ssOk cur t w)"
proof (cases "lastEvent w")
  case None
  then show ?thesis
    using addStatusEvent_tidy [OF assms(1,2)] by (simp add: onReopenFillGap_def Let_def)
next
  case (Some lastEv)
  have l: "ledger T w" using assms(1) by (simp add: tidy_def)
  have stay: "tidy t w" by (rule tidy_keep [OF assms(1,2)]) auto
  let ?ev = "\<lparr>online = online cur, gameName = orNull (gameName cur),
               evUsername = username w, timestamp = t, heartbeat = False\<rparr>"
  show ?thesis
  proof (cases "online lastEv \<and> \<not> online cur")
    case True
    note closing = this
    show ?thesis
    proof (cases ssOk)
      case False
      with Some closing stay show ?thesis
        by (simp add: onReopenFillGap_def Let_def dbAdd_def)
    next
      case True
      with assms(3) have evOk by simp
      let ?ss = "\<lparr>ssUsername = username w, startTs = timestamp lastEv, endTs = t,
                      durationSec = closedDuration (timestamp lastEv) t,
                      ssGameName = (if truthyStr (gameName lastEv) then gameName lastEv
                                    else orNull (gameName cur))\<rparr>"
      let ?v = "w\<lparr>sessions := sessions w @ [?ss],
                 events := events w @ [?ev\<lparr>online := False\<rparr>]\<rparr>"
      have run: "onReopenFillGap evOk ssOk cur t w = repairStateFromDB ?v"
        using Some closing True \<open>evOk\<close> by (simp add: onReopenFillGap_def Let_def dbAdd_def)
      have before: "\<forall>r\<in>set (sessions w). endTs r \<le> startTs ?ss"
        using ledger_ends_before_last [OF l Some] by simp
      have lv: "ledger t ?v"
        by (rule ledger_close [OF l assms(2) _ _ _ before]) auto
      have "lastEvent ?v \<noteq> None" by (simp add: lastEvent_None)
      from repair_tidy [OF lv this] run show ?thesis by simp
    qed
  next
    case False
    note other = this
    show ?thesis
    proof (cases evOk)
      case False
      with Some other stay show ?thesis
        by (auto simp: onReopenFillGap_def Let_def dbAdd_def)
    next
      case True
      let ?v = "w\<lparr>events := events w @ [?ev]\<rparr>"
      have run: "onReopenFillGap evOk ssOk cur t w = repairStateFromDB ?v"
        using Some other True by (auto simp: onReopenFillGap_def Let_def dbAdd_def)
      have lv: "ledger t ?v" by (rule ledger_keep [OF l assms(2)]) auto
      have "lastEvent ?v \<noteq> None" by (simp add: lastEvent_None)
      from repair_tidy [OF lv this] run show ?thesis by simp
    qed
  qed
qed

lemma onReopenFillGapReads_tidy:
  assumes "tidy T w" and "T \<le> t" and "rdOk \<and> ssOk \<longrightarrow> evOk \<and> repairOk"
  shows "tidy t (onReopenFillGapReads rdOk repairOk evOk ssOk cur t w)"
proof (cases rdOk)
  case False
  then have "onReopenFillGapReads rdOk repairOk evOk ssOk cur t w = w"
    by (simp add: onReopenFillGapReads_def)
  with assms(1,2) show ?thesis by (simp add: tidy_keep)
next
  case rd: True
  show ?thesis
  proof (cases repairOk)
    case True
    with rd assms(3) have "ssOk \<longrightarrow> evOk" by simp
    from onReopenFillGap_tidy [OF assms(1,2) this, of cur] rd True
    show ?thesis by (simp add: onReopenFillGapReads_accepted)
  next
    case norepair: False
    with rd assms(3) have noss: "\<not> ssOk" by auto
    show ?thesis
    proof (cases "lastEvent w")
      case None
      with rd show ?thesis
        using addStatusEvent_tidy [OF assms(1,2)]
        by (simp add: onReopenFillGapReads_def Let_def)
    next
      case (Some lastEv)
      let ?w' = "onReopenFillGapReads rdOk repairOk evOk ssOk cur t w"
      have "username ?w' = username w" and "set (events w) \<subseteq> set (events ?w')"
        and "sessions ?w' = sessions w"
        and "currentSessionStart ?w' = currentSessionStart w"
        using Some rd norepair noss
        by (auto simp: onReopenFillGapReads_def Let_def dbAdd_def)
      then show ?thesis using tidy_keep [OF assms(1,2), of ?w'] by simp
    qed
  qed
qed

lemma run_tidy:
  "tidy T w \<Longrightarrow> orderly T ops \<Longrightarrow> \<exists>T'. tidy T' (run ops w)"
proof (induction ops arbitrary: T w)
  case Nil
  then show ?case by auto
next
  case (Cons x ops)
  show ?case
  proof (cases x)
    case (Ingest evOk ssOk res t)
    with Cons.prems have "T \<le> t" and rest: "orderly t ops" by simp_all
    from onStatusResult_tidy [OF Cons.prems(1) \<open>T \<le> t\<close>, of evOk ssOk res]
    have "tidy t (step x w)" by (simp add: Ingest)
    from Cons.IH [OF this rest] show ?thesis by simp
  next
    case (Reopen evOk ssOk res t)
    with Cons.prems have "T \<le> t" and ok: "ssOk \<longrightarrow> evOk" and rest: "orderly t ops"
      by simp_all
    from onReopenFillGap_tidy [OF Cons.prems(1) \<open>T \<le> t\<close> ok, of res]
    have "tidy t (step x w)" by (simp add: Reopen)
    from Cons.IH [OF this rest] show ?thesis by simp
  next
    case (ReopenReads rdOk repairOk evOk ssOk res t)
    with Cons.prems have "T \<le> t" and ok: "rdOk \<and> ssOk \<longrightarrow> evOk \<and> repairOk"
      and rest: "orderly t ops"
      by simp_all
    from onReopenFillGapReads_tidy [OF Cons.prems(1) \<open>T \<le> t\<close> ok, of res]
    have "tidy t (step x w)" by (simp add: ReopenReads)
    from Cons.IH [OF this rest] show ?thesis by simp
  next
    case Repair
    with Cons.prems have rest: "orderly T ops" by simp
    from repair_tidy_any [OF Cons.prems(1)] have "tidy T (step x w)" by (simp add: Repair)
    from Cons.IH [OF this rest] show ?thesis by simp
  next
    case (WorkerSave evOk ssOk uname res t)
    with Cons.prems show ?thesis by simp
  qed
qed

text \<open>
  C5 (as amended). For every sequence of the page's ingests and repair runs made one whole
  call after the other (each call completes before the next one starts), from empty
  stores, whose clock readings never decrease and in which no gap repair whose Session
  append was accepted has its Event append or its concluding read of the Event table
  rejected afterwards (\<open>orderly\<close>), the Session table never holds two Sessions of the
  identity whose intervals \<open>[startTs, endTs)\<close> overlap. The open session is the one value
  \<open>currentSessionStart\<close>, and when it is held it is not earlier than the end of any Session
  in the table. Rejected appends of an ingest, a rejected first read of a gap repair, and a
  rejected concluding read of a gap repair that wrote no Session are allowed.
\<close>

theorem sessions_never_overlap:
  assumes "orderly T ops"
  shows "noOverlap (sessions (run ops (world0 u)))
       \<and> (\<forall>c. currentSessionStart (run ops (world0 u)) = Some c \<longrightarrow>
             (\<forall>s\<in>set (sessions (run ops (world0 u))). endTs s \<le> c))"
proof -
  have "tidy T (world0 u)" by (simp add: tidy_def ledger_def noOverlap_def world0_def)
  from run_tidy [OF this assms] obtain T' where "tidy T' (run ops (world0 u))" ..
  then show ?thesis by (simp add: tidy_def ledger_def)
qed

text \<open>Two sessions, the second one closed by a gap repair.\<close>

theorem sessions_never_overlap_witness:
  "orderly 0 [Ingest True True jogoA 1000, Ingest True True offline 601000,
              Ingest True True jogoA 700000, Reopen True True offline 900000]
   \<and> noOverlap (sessions (run [Ingest True True jogoA 1000, Ingest True True offline 601000,
              Ingest True True jogoA 700000, Reopen True True offline 900000] (world0 ''abc'')))
   \<and> map startTs (sessions (run [Ingest True True jogoA 1000, Ingest True True offline 601000,
              Ingest True True jogoA 700000, Reopen True True offline 900000] (world0 ''abc'')))
       = [1000, 700000]"
proof -
  have h: "orderly 0 [Ingest True True jogoA 1000, Ingest True True offline 601000,
              Ingest True True jogoA 700000, Reopen True True offline 900000]"
    by simp
  have m: "map startTs (sessions (run [Ingest True True jogoA 1000, Ingest True True offline 601000,
              Ingest True True jogoA 700000, Reopen True True offline 900000] (world0 ''abc'')))
       = [1000, 700000]"
    by (simp add: run_defs)
  from sessions_never_overlap [OF h, of "''abc''"] h m show ?thesis by blast
qed

text \<open>
  Three runs of whole calls that leave overlapping Sessions: one in which the clock is set
  back after a Session was closed (Sessions \<open>[1000, 5000)\<close> and \<open>[2000, 3000)\<close>); one in
  which a gap repair's Event append is rejected after its Session was written, so that the
  next repair closes the same stretch again (\<open>[1000, 5000)\<close> and \<open>[1000, 6000)\<close>); and one
  with non-decreasing readings and every append accepted, in which the concluding read of
  a gap repair is rejected after both of its appends: the runtime state still says online
  since 1000, and the next offline ingest closes that stretch again (\<open>[1000, 5000)\<close> and
  \<open>[1000, 6000)\<close>).
\<close>

theorem sessions_overlap_counterexample:
  "\<not> noOverlap (sessions (run [Ingest True True jogoA 1000, Ingest True True offline 5000,
                               Ingest True True jogoA 2000, Ingest True True offline 3000]
                          (world0 ''abc'')))
   \<and> \<not> noOverlap (sessions (run [Ingest True True jogoA 1000, Reopen False True offline 5000,
                                 Reopen True True offline 6000]
                            (world0 ''abc'')))
   \<and> map (\<lambda>s. (startTs s, endTs s))
       (sessions (run [Ingest True True jogoA 1000,
                       ReopenReads True False True True offline 5000,
                       Ingest True True offline 6000] (world0 ''abc'')))
       = [(1000, 5000), (1000, 6000)]
   \<and> \<not> noOverlap (sessions (run [Ingest True True jogoA 1000,
                                 ReopenReads True False True True offline 5000,
                                 Ingest True True offline 6000] (world0 ''abc'')))"
  by (simp add: run_defs noOverlap_def overlap_def)

text \<open>The service worker writes a Session of five minutes at every offline save: two
  saves one minute apart overlap.\<close>

lemma worker_sessions_overlap:
  "\<not> noOverlap (sessions (run [WorkerSave True True ''abc'' offline 600000,
                               WorkerSave True True ''abc'' offline 660000] (world0 ''abc'')))"
  by (simp add: run_defs noOverlap_def overlap_def)

subsection \<open>The session start is held while online\<close>

text \<open>
  The state predicate of C1 holds after every run of ingests, repairs and worker saves
  from empty stores whose clock readings are not 0, whatever the store's verdicts.
\<close>

lemma addStatusEvent_marked:
  assumes "marked w" and "t \<noteq> 0"
  shows "marked (worldOf (addStatusEvent evOk ssOk u onl g t w))"
  using assms
  by (auto simp: marked_def sessionOpenWhenOnline_def addStatusEvent_def dbAdd_def worldOf_def
                 Let_def truthyNum_def split: option.splits)

lemma commitStatus_marked:
  assumes "\<forall>e\<in>set (events w). timestamp e \<noteq> 0" and "t \<noteq> 0"
  shows "marked (worldOf (commitStatus onl g t w))"
  using assms
  by (auto simp: marked_def sessionOpenWhenOnline_def commitStatus_def updateUILive_def
                 worldOf_def truthyNum_def split: option.splits)

lemma andThen_commit_marked:
  assumes "marked (worldOf r)" and "t \<noteq> 0"
  shows "marked (worldOf (andThen r (commitStatus onl g t)))"
proof (cases r)
  case (Inl x)
  with assms show ?thesis by (simp add: andThen_def)
next
  case (Inr v)
  with assms have "\<forall>e\<in>set (events v). timestamp e \<noteq> 0" by (simp add: worldOf_def marked_def)
  from commitStatus_marked [OF this assms(2), of onl g] Inr show ?thesis
    by (simp add: andThen_def)
qed

lemma onStatusResult_marked:
  assumes "marked w" and "t \<noteq> 0"
  shows "marked (worldOf (onStatusResult evOk ssOk res t w))"
proof (cases "lastKnownStatus w")
  case None
  then show ?thesis
    using andThen_commit_marked [OF addStatusEvent_marked [OF assms] assms(2)]
    by (simp add: onStatusResult_def Let_def)
next
  case (Some lk)
  show ?thesis
  proof (cases "stateChanged lk (online res) (orNull (gameName res))")
    case True
    with Some show ?thesis
      using andThen_commit_marked [OF addStatusEvent_marked [OF assms] assms(2)]
      by (simp add: onStatusResult_def Let_def)
  next
    case False
    note quiet = this
    show ?thesis
    proof (cases "t - ts lk > heartbeatMs \<and> evOk")
      case True
      let ?v = "w\<lparr>events := events w @
                    [\<lparr>online = online res, gameName = orNull (gameName res),
                      evUsername = username w, timestamp = t, heartbeat = True\<rparr>],
                  lastKnownStatus := Some (lk\<lparr>ts := t\<rparr>)\<rparr>"
      have "\<forall>e\<in>set (events ?v). timestamp e \<noteq> 0"
        using assms by (auto simp: marked_def)
      from commitStatus_marked [OF this assms(2), of "online res" "orNull (gameName res)"]
      show ?thesis using Some quiet True
        by (simp add: onStatusResult_def Let_def dbAdd_def)
    next
      case False
      have "\<forall>e\<in>set (events w). timestamp e \<noteq> 0" using assms by (simp add: marked_def)
      from commitStatus_marked [OF this assms(2), of "online res" "orNull (gameName res)"]
        assms(1)
      show ?thesis using Some quiet False
        by (auto simp: onStatusResult_def Let_def dbAdd_def worldOf_def)
    qed
  qed
qed

lemma repair_marked:
  assumes "\<forall>e\<in>set (events w). timestamp e \<noteq> 0" and "lastEvent w \<noteq> None"
  shows "marked (repairStateFromDB w)"
proof -
  from assms(2) obtain lastEv where le: "lastEvent w = Some lastEv" by blast
  from lastEvent_mem [OF le] assms(1) have "timestamp lastEv \<noteq> 0" by blast
  with assms(1) show ?thesis
    by (simp add: marked_def sessionOpenWhenOnline_def truthyNum_def repair_result [OF le])
qed

lemma repair_marked_any:
  assumes "marked w"
  shows "marked (repairStateFromDB w)"
proof (cases "lastEvent w")
  case None
  then show ?thesis using assms by (simp add: repairStateFromDB_def)
next
  case (Some lastEv)
  then show ?thesis using repair_marked [of w] assms by (simp add: marked_def)
qed

lemma onReopenFillGap_marked:
  assumes "marked w" and "t \<noteq> 0"
  shows "marked (onReopenFillGap evOk ssOk cur t w)"
proof (cases "lastEvent w")
  case None
  then show ?thesis
    using addStatusEvent_marked [OF assms] by (simp add: onReopenFillGap_def Let_def)
next
  case (Some lastEv)
  have ev: "\<forall>e\<in>set (events w). timestamp e \<noteq> 0" using assms(1) by (simp add: marked_def)
  have sessions_only: "marked (w\<lparr>sessions := ss\<rparr>)" for ss
    using assms(1) by (simp add: marked_def sessionOpenWhenOnline_def split: option.splits)
  have grown: "marked (repairStateFromDB (v\<lparr>events := events w @ [e]\<rparr>))"
    if "timestamp e = t" and "evUsername e = username v" for v e
  proof (rule repair_marked)
    show "\<forall>x\<in>set (events (v\<lparr>events := events w @ [e]\<rparr>)). timestamp x \<noteq> 0"
      using ev assms(2) that(1) by auto
    show "lastEvent (v\<lparr>events := events w @ [e]\<rparr>) \<noteq> None"
      using that(2) by (simp add: lastEvent_None)
  qed
  show ?thesis
  proof (cases "online lastEv \<and> \<not> online cur")
    case True
    then show ?thesis
      using Some assms(1) sessions_only grown
      by (simp add: onReopenFillGap_def Let_def dbAdd_def)
  next
    case False
    then show ?thesis
      using Some assms(1) grown [of _ w]
      by (auto simp: onReopenFillGap_def Let_def dbAdd_def)
  qed
qed

lemma workerSaveEvent_marked:
  assumes "marked w" and "t \<noteq> 0"
  shows "marked (workerSaveEvent evOk ssOk u res t w)"
  using assms
  by (auto simp: marked_def sessionOpenWhenOnline_def workerSaveEvent_def dbAdd_def Let_def
           split: option.splits)

lemma onReopenFillGapReads_marked:
  assumes "marked w" and "t \<noteq> 0"
  shows "marked (onReopenFillGapReads rdOk repairOk evOk ssOk cur t w)"
proof (cases "rdOk \<and> repairOk")
  case True
  with onReopenFillGap_marked [OF assms, of evOk ssOk cur] show ?thesis
    by (simp add: onReopenFillGapReads_accepted)
next
  case False
  show ?thesis
  proof (cases "lastEvent w")
    case None
    then show ?thesis
      using addStatusEvent_marked [OF assms] assms(1)
      by (simp add: onReopenFillGapReads_def Let_def)
  next
    case (Some lastEv)
    then show ?thesis
      using False assms
      by (auto simp: marked_def sessionOpenWhenOnline_def onReopenFillGapReads_def Let_def
                     dbAdd_def split: option.splits)
  qed
qed

lemma run_marked:
  "marked w \<Longrightarrow> \<forall>x\<in>set ops. stamped x \<Longrightarrow> marked (run ops w)"
proof (induction ops arbitrary: w)
  case Nil
  then show ?case by simp
next
  case (Cons x ops)
  from Cons.prems(2) have x: "stamped x" and rest: "\<forall>y\<in>set ops. stamped y" by simp_all
  have "marked (step x w)"
  proof (cases x)
    case (Ingest evOk ssOk res t)
    with x onStatusResult_marked [OF Cons.prems(1), of t evOk ssOk res] show ?thesis by simp
  next
    case (Reopen evOk ssOk res t)
    with x onReopenFillGap_marked [OF Cons.prems(1), of t evOk ssOk res] show ?thesis by simp
  next
    case (ReopenReads rdOk repairOk evOk ssOk res t)
    with x onReopenFillGapReads_marked [OF Cons.prems(1), of t rdOk repairOk evOk ssOk res]
    show ?thesis by simp
  next
    case Repair
    with repair_marked_any [OF Cons.prems(1)] show ?thesis by simp
  next
    case (WorkerSave evOk ssOk uname res t)
    with x workerSaveEvent_marked [OF Cons.prems(1), of t evOk ssOk uname res]
    show ?thesis by simp
  qed
  from Cons.IH [OF this rest] show ?case by simp
qed

lemma session_start_held_while_online:
  "\<forall>x\<in>set ops. stamped x \<Longrightarrow> sessionOpenWhenOnline (run ops (world0 u))"
proof -
  assume a: "\<forall>x\<in>set ops. stamped x"
  have "marked (world0 u)" by (simp add: marked_def sessionOpenWhenOnline_def world0_def)
  from run_marked [OF this a] show ?thesis by (simp add: marked_def)
qed

end
